theory Spec2Isabelle
  imports Complex_Main
begin

section \<open>Arrays and errors\<close>

text \<open>
  The program is a NumPy module. Its floating-point scalars are read as the real and
  complex numbers they approximate, a one-dimensional array is a list and a
  two-dimensional array is the list of its rows. What Python raises is a value of
  \<open>error\<close>. \<open>NonFinite\<close> is not an exception: it marks a run whose arrays hold NaN from
  some point on (the quotient 0/0 of \<open>make_B_vector\<close>), which a development over the
  reals does not follow any further.
\<close>

datatype error = ValueError | IndexError | LinAlgError | NonFinite

type_synonym rvec = "real list"
type_synonym cmat = "complex list list"

definition bind_e :: "error + 'a \<Rightarrow> ('a \<Rightarrow> error + 'b) \<Rightarrow> error + 'b" where
  "bind_e m f = (case m of Inl e \<Rightarrow> Inl e | Inr x \<Rightarrow> f x)"

definition shape :: "'a list list \<Rightarrow> nat \<times> nat list" where
  "shape M = (length M, map length M)"

definition is_mat :: "nat \<Rightarrow> nat \<Rightarrow> 'a list list \<Rightarrow> bool" where
  "is_mat n m M = (shape M = (n, replicate n m))"

definition np_zeros :: "nat \<Rightarrow> nat \<Rightarrow> ('a::zero) list list" where
  "np_zeros n m = replicate n (replicate m 0)"

definition np_add :: "cmat \<Rightarrow> cmat \<Rightarrow> cmat" where
  \<comment> \<open>\<open>A + B\<close> on two arrays of one shape (every sum of the module is of two 4 by 4
      or two 8 by 8 arrays)\<close>
  "np_add A B = map2 (map2 (+)) A B"

definition np_add_scalar :: "cmat \<Rightarrow> complex \<Rightarrow> cmat" where
  \<comment> \<open>\<open>A + c\<close>: the scalar is broadcast to every entry\<close>
  "np_add_scalar A c = map (map (\<lambda>x. x + c)) A"

definition np_scale :: "complex \<Rightarrow> cmat \<Rightarrow> cmat" where
  "np_scale c A = map (map (\<lambda>x. c * x)) A"

definition np_conjugate :: "cmat \<Rightarrow> cmat" where
  "np_conjugate A = map (map cnj) A"

definition np_transpose :: "'a list list \<Rightarrow> 'a list list" where
  "np_transpose A = (case A of [] \<Rightarrow> [] | r # _ \<Rightarrow> map (\<lambda>j. map (\<lambda>row. row ! j) A) [0..<length r])"

definition dagger :: "cmat \<Rightarrow> cmat" where
  \<comment> \<open>\<open>A.conjugate().transpose()\<close>\<close>
  "dagger A = np_transpose (np_conjugate A)"

section \<open>The five term builders\<close>

definition H_SO :: "real \<Rightarrow> cmat" where
  "H_SO lambda_SO =
     (let a = \<i> * complex_of_real lambda_SO / 2 in
      [[0, 0, - a, 0],
       [0, 0, 0, a],
       [a, 0, 0, 0],
       [0, - a, 0, 0]])"

fun H_JT :: "rvec \<Rightarrow> error + cmat" where
  "H_JT [x, y] =
     Inr (map (map complex_of_real)
       [[x, 0, y, 0],
        [0, x, 0, y],
        [y, 0, - x, 0],
        [0, y, 0, - x]])"
| "H_JT _ = Inl ValueError"

fun H_ZL :: "rvec \<Rightarrow> real \<Rightarrow> real \<Rightarrow> error + cmat" where
  "H_ZL [Bx, By, Bz] gammaL f =
     (let iBz = \<i> * complex_of_real Bz in
      Inr (np_scale (complex_of_real (f * gammaL))
        [[0, 0, iBz, 0],
         [0, 0, 0, iBz],
         [- iBz, 0, 0, 0],
         [0, - iBz, 0, 0]]))"
| "H_ZL _ gammaL f = Inl ValueError"

fun H_ZS :: "rvec \<Rightarrow> real \<Rightarrow> error + cmat" where
  "H_ZS [Bx, By, Bz] gammaS =
     (let Bp = complex_of_real Bx + \<i> * complex_of_real By;
          Bm = complex_of_real Bx - \<i> * complex_of_real By;
          Bzc = complex_of_real Bz in
      Inr (np_scale (complex_of_real gammaS)
        [[Bzc, Bm, 0, 0],
         [Bp, - Bzc, 0, 0],
         [0, 0, Bzc, Bm],
         [0, 0, Bp, - Bzc]]))"
| "H_ZS _ gammaS = Inl ValueError"

definition H_st :: "real \<Rightarrow> real \<Rightarrow> real \<Rightarrow> cmat" where
  "H_st alpha beta delta =
     (let ad0 = alpha - delta; ad1 = - alpha - delta; bt = beta in
      map (map complex_of_real)
       [[ad0, 0, bt, 0],
        [0, ad0, 0, bt],
        [bt, 0, ad1, 0],
        [0, bt, 0, ad1]])"

section \<open>Field vectors and the change of basis\<close>

text \<open>
  \<open>make_B_vector\<close> divides by \<open>nrm\<close>, the sum of the squared entries. NumPy does not
  raise on a zero divisor: every entry is then 0/0, and the array returned holds one NaN
  per entry. \<open>NaN_field n\<close> is that array.
\<close>

datatype field = Field rvec | NaN_field nat

definition make_B_vector :: "real \<Rightarrow> rvec \<Rightarrow> field" where
  "make_B_vector magnitude coordinate_vector =
     (let vec = coordinate_vector;
          nrm = sum_list (map (\<lambda>v. \<bar>v\<bar> ^ 2) vec)
      in if nrm = 0 then NaN_field (length vec)
         else Field (map (\<lambda>v. magnitude * v / nrm) vec))"

definition lattice_basis :: "real list list" where
  "lattice_basis =
     (let ex = map (\<lambda>v. (1 / sqrt 6) * v) [1, - 2, 1];
          ey = map (\<lambda>v. (1 / sqrt 2) * v) [1, 0, - 1];
          ez = map (\<lambda>v. (1 / sqrt 3) * v) [1, 1, 1]
      in [ex, ey, ez])"

definition matvec :: "real list list \<Rightarrow> rvec \<Rightarrow> rvec" where
  "matvec A v = map (\<lambda>row. sum_list (map2 (*) row v)) A"

fun coord_to_lattice :: "rvec \<Rightarrow> error + rvec" where
  "coord_to_lattice [x, y, z] = Inr (matvec (np_transpose lattice_basis) [x, y, z])"
| "coord_to_lattice _ = Inl ValueError"

fun lattice_to_coord :: "rvec \<Rightarrow> error + rvec" where
  "lattice_to_coord [x, y, z] = Inr (matvec lattice_basis [x, y, z])"
| "lattice_to_coord _ = Inl ValueError"

definition norm2 :: "rvec \<Rightarrow> real" where
  \<comment> \<open>the Euclidean norm of a vector\<close>
  "norm2 v = sqrt (sum_list (map (\<lambda>x. x ^ 2) v))"

section \<open>Parameters of the module\<close>

text \<open>
  The three physical constants come from \<open>scipy.constants\<close>, whose values are not part
  of the program: they are a parameter of everything that uses them.
\<close>

record constants =
  hbar :: real
  elementary_charge :: real
  m_e :: real

definition mu_B :: "constants \<Rightarrow> real" where
  "mu_B c = 0.5 * elementary_charge c * hbar c / m_e c"

definition lambda_g :: real where "lambda_g = 2 * pi * 0.815"
definition lambda_u :: real where "lambda_u = 2 * pi * 2.355"

definition xi_xg :: real where "xi_xg = 2 * pi * 0.065"
definition xi_yg :: real where "xi_yg = 2 * pi * 0"
definition xi_xu :: real where "xi_xu = 2 * pi * 0.855"
definition xi_yu :: real where "xi_yu = 2 * pi * 0"

definition f_g :: real where "f_g = 0.15"
definition f_u :: real where "f_u = 0.15"

definition gamma_L :: "constants \<Rightarrow> real" where
  "gamma_L c = mu_B c / hbar c * (1 / 10 ^ 12)"

definition gamma_S :: "constants \<Rightarrow> real" where
  "gamma_S c = 2 * gamma_L c"

definition alpha_g :: real where "alpha_g = 2 * pi * (- 0.238)"
definition beta_g :: real where "beta_g = 2 * pi * 0.238"
definition delta_g :: real where "delta_g = 2 * pi * 0"
definition alpha_u :: real where "alpha_u = 2 * pi * (- 0.076)"
definition beta_u :: real where "beta_u = 2 * pi * (- 0.07)"
definition delta_u :: real where "delta_u = 2 * pi * 0"

definition ZPL :: real where "ZPL = 2 * pi * 484.32"

section \<open>Manifold Hamiltonians\<close>

definition Hg0 :: "error + cmat" where
  "Hg0 = bind_e (H_JT [xi_xg, xi_yg]) (\<lambda>jt. Inr (np_add (H_SO lambda_g) jt))"

definition Hu0 :: "error + cmat" where
  "Hu0 = bind_e (H_JT [xi_xu, xi_yu]) (\<lambda>jt. Inr (np_add (H_SO lambda_u) jt))"

text \<open>
  \<open>_HgL\<close> and \<open>_HuL\<close>: the last summand is the strain matrix or the scalar 0, which
  NumPy broadcasts. A field of NaN is unpacked like any other array (three entries or
  \<open>ValueError\<close>); with three entries the sum holds NaN.
\<close>

fun HgL :: "constants \<Rightarrow> field \<Rightarrow> bool \<Rightarrow> error + cmat" where
  "HgL c (Field B) strain =
     bind_e Hg0 (\<lambda>h0.
     bind_e (H_ZL B (gamma_L c) f_g) (\<lambda>zl.
     bind_e (H_ZS B (gamma_S c)) (\<lambda>zs.
       let h = np_add (np_add h0 zl) zs in
       Inr (if strain then np_add h (H_st alpha_g beta_g delta_g)
            else np_add_scalar h 0))))"
| "HgL c (NaN_field n) strain = (if n = 3 then Inl NonFinite else Inl ValueError)"

fun HuL :: "constants \<Rightarrow> field \<Rightarrow> bool \<Rightarrow> error + cmat" where
  "HuL c (Field B) strain =
     bind_e Hu0 (\<lambda>h0.
     bind_e (H_ZL B (gamma_L c) f_u) (\<lambda>zl.
     bind_e (H_ZS B (gamma_S c)) (\<lambda>zs.
       let h = np_add (np_add h0 zl) zs in
       Inr (if strain then np_add h (H_st alpha_u beta_u delta_u)
            else np_add_scalar h 0))))"
| "HuL c (NaN_field n) strain = (if n = 3 then Inl NonFinite else Inl ValueError)"

text \<open>The module-level flag \<open>s = False\<close>.\<close>

definition s :: bool where
  "s = False"

definition np_diag :: "real list \<Rightarrow> cmat" where
  "np_diag d = map (\<lambda>i. map (\<lambda>j. if i = j then complex_of_real (d ! i) else 0) [0..<length d])
                 [0..<length d]"

definition broadcast_to :: "nat \<Rightarrow> nat \<Rightarrow> 'a list list \<Rightarrow> error + 'a list list" where
  \<comment> \<open>the two-dimensional arrays NumPy accepts on the right of an assignment to an
      \<open>h\<close> by \<open>w\<close> slice\<close>
  "broadcast_to h w M =
     (if is_mat h w M then Inr M
      else if is_mat 1 w M then Inr (replicate h (M ! 0))
      else if is_mat h 1 M then Inr (map (\<lambda>r. replicate w (r ! 0)) M)
      else if is_mat 1 1 M then Inr (replicate h (replicate w (M ! 0 ! 0)))
      else Inl ValueError)"

definition put_block :: "'a list list \<Rightarrow> nat \<Rightarrow> nat \<Rightarrow> 'a list list \<Rightarrow> 'a list list" where
  \<comment> \<open>overwrite the rows from \<open>r0\<close> and the columns from \<open>c0\<close> on with the block\<close>
  "put_block P r0 c0 blk =
     map (\<lambda>i. if r0 \<le> i \<and> i < r0 + length blk
               then take c0 (P ! i) @ blk ! (i - r0) @ drop (c0 + length (blk ! (i - r0))) (P ! i)
               else P ! i) [0..<length P]"

definition set_block :: "'a list list \<Rightarrow> nat \<Rightarrow> nat \<Rightarrow> nat \<Rightarrow> nat \<Rightarrow> 'a list list \<Rightarrow> error + 'a list list" where
  \<comment> \<open>\<open>P[r0:r0+h, c0:c0+w] = M\<close>, for a slice inside \<open>P\<close>\<close>
  "set_block P r0 c0 h w M = bind_e (broadcast_to h w M) (\<lambda>blk. Inr (put_block P r0 c0 blk))"

text \<open>A dictionary with the two keys \<open>'g'\<close> and \<open>'u'\<close>.\<close>

record 'a gu =
  g :: 'a
  u :: 'a

definition get_block :: "'a list list \<Rightarrow> nat \<Rightarrow> nat \<Rightarrow> nat \<Rightarrow> nat \<Rightarrow> 'a list list" where
  \<comment> \<open>the slice \<open>M[r0:r0+h, c0:c0+w]\<close>\<close>
  "get_block M r0 c0 h w = map (\<lambda>row. take w (drop c0 row)) (take h (drop r0 M))"

definition manifold_blocks :: "constants \<Rightarrow> field \<Rightarrow> error + cmat gu" where
  \<comment> \<open>the two statements \<open>_HgT = np.array(_HgL(B, s))\<close> and
      \<open>_HuT = np.diag([ZPL for i in range(4)]) + np.array(_HuL(B, s))\<close>, which
      \<open>snv_hamiltonian\<close>, \<open>system\<close> and \<open>system_small\<close> share\<close>
  "manifold_blocks c B =
     bind_e (HgL c B s) (\<lambda>HgT.
     bind_e (HuL c B s) (\<lambda>hu.
     let HuT = np_add (np_diag (replicate 4 ZPL)) hu in
     Inr \<lparr>g = HgT, u = HuT\<rparr>))"

definition snv_hamiltonian :: "constants \<Rightarrow> real \<Rightarrow> bool \<Rightarrow> rvec \<Rightarrow> error + cmat" where
  "snv_hamiltonian c b strain b_vec =
     (let H0 = np_zeros 8 8 in
      bind_e (lattice_to_coord b_vec) (\<lambda>lc.
      let B = make_B_vector b lc in
      bind_e (manifold_blocks c B) (\<lambda>HT.
      bind_e (set_block H0 0 0 4 4 (u HT)) (\<lambda>H1.
      set_block H1 4 4 4 4 (g HT)))))"

section \<open>Diagonalisation and the dipole transform\<close>

text \<open>
  \<open>numpy.linalg.eigh\<close> is a library routine: it is a parameter \<open>eigh\<close> of the model,
  returning the eigenvalues and the matrix whose columns are the eigenvectors, or
  \<open>LinAlgError\<close>. \<open>argsort\<close> is the permutation that sorts the eigenvalues.
\<close>

type_synonym eigh_fn = "cmat \<Rightarrow> error + (real list \<times> cmat)"

definition argsort :: "real list \<Rightarrow> nat list" where
  \<comment> \<open>\<open>np.argsort\<close>: the indices in ascending order of the values, equal values in
      their order of appearance\<close>
  "argsort w = sort_key (\<lambda>i. w ! i) [0..<length w]"

definition take_idx :: "'a list \<Rightarrow> nat list \<Rightarrow> error + 'a list" where
  \<comment> \<open>\<open>xs[idx]\<close> for an array of indices\<close>
  "take_idx xs idx =
     (if list_all (\<lambda>i. i < length xs) idx then Inr (map (\<lambda>i. xs ! i) idx) else Inl IndexError)"

fun mapM_e :: "('a \<Rightarrow> error + 'b) \<Rightarrow> 'a list \<Rightarrow> error + 'b list" where
  "mapM_e f [] = Inr []"
| "mapM_e f (x # xs) = bind_e (f x) (\<lambda>y. bind_e (mapM_e f xs) (\<lambda>ys. Inr (y # ys)))"

definition get_eigs :: "eigh_fn \<Rightarrow> cmat \<Rightarrow> error + (real list \<times> cmat)" where
  "get_eigs eigh matrix =
     bind_e (eigh matrix) (\<lambda>(w, v).
     let i = argsort w in
     bind_e (take_idx w i) (\<lambda>w'.
     bind_e (mapM_e (\<lambda>row. take_idx row i) v) (\<lambda>v'.
     Inr (w', v'))))"

definition ncols :: "'a list list \<Rightarrow> nat" where
  "ncols A = (case A of [] \<Rightarrow> 0 | r # _ \<Rightarrow> length r)"

definition np_dot :: "cmat \<Rightarrow> cmat \<Rightarrow> error + cmat" where
  \<comment> \<open>the matrix product of two arrays with at least one row; NumPy raises on shapes
      that do not match\<close>
  "np_dot A B =
     (if is_mat (length A) (length B) A \<and> is_mat (length B) (ncols B) B
      then Inr (map (\<lambda>row. map (\<lambda>j. sum_list (map2 (*) row (map (\<lambda>r. r ! j) B)))
                               [0..<ncols B]) A)
      else Inl ValueError)"

datatype axis = axis_x | axis_y | axis_z

definition dipole_matel :: "axis \<Rightarrow> cmat" where
  "dipole_matel a =
     (let p_x = [[1, 0, 0, 0],
                 [0, 1, 0, 0],
                 [0, 0, - 1, 0],
                 [0, 0, 0, - 1]];
          p_y = [[0, 0, - 1, 0],
                 [0, 0, 0, - 1],
                 [- 1, 0, 0, 0],
                 [0, - 1, 0, 0]];
          p_z = np_scale 2
                [[1, 0, 0, 0],
                 [0, 1, 0, 0],
                 [0, 0, 1, 0],
                 [0, 0, 0, 1]]
      in case a of axis_x \<Rightarrow> p_x | axis_y \<Rightarrow> p_y | axis_z \<Rightarrow> p_z)"

record manifold_result =
  eigs :: "real list gu"
  vecs :: "cmat gu"
  dips :: "axis \<Rightarrow> cmat"

definition transform :: "cmat \<Rightarrow> cmat \<Rightarrow> cmat \<Rightarrow> error + cmat" where
  \<comment> \<open>\<open>np.dot(Mvg.conjugate().transpose(), np.dot(D[axis], Mvu))\<close>\<close>
  "transform Mvg Mvu Da = bind_e (np_dot Da Mvu) (\<lambda>t. np_dot (dagger Mvg) t)"

fun even_idx :: "'a list \<Rightarrow> 'a list" where
  \<comment> \<open>the slice \<open>[::2]\<close>\<close>
  "even_idx [] = []"
| "even_idx [a] = [a]"
| "even_idx (a # b # rest) = a # even_idx rest"

definition by_axis :: "'a \<Rightarrow> 'a \<Rightarrow> 'a \<Rightarrow> axis \<Rightarrow> 'a" where
  "by_axis vx vy vz a = (case a of axis_x \<Rightarrow> vx | axis_y \<Rightarrow> vy | axis_z \<Rightarrow> vz)"

definition manifold :: "eigh_fn \<Rightarrow> cmat gu \<Rightarrow> (axis \<Rightarrow> cmat) \<Rightarrow> error + manifold_result" where
  "manifold eigh HT D =
     bind_e (get_eigs eigh (u HT)) (\<lambda>(Wu, Vu).
     bind_e (get_eigs eigh (g HT)) (\<lambda>(Wg, Vg).
     let Mvu = Vu; Mvg = Vg in
     bind_e (transform Mvg Mvu (D axis_x)) (\<lambda>dx.
     bind_e (transform Mvg Mvu (D axis_y)) (\<lambda>dy.
     bind_e (transform Mvg Mvu (D axis_z)) (\<lambda>dz.
     Inr \<lparr>eigs = \<lparr>g = Wg, u = Wu\<rparr>, vecs = \<lparr>g = Mvg, u = Mvu\<rparr>,
          dips = by_axis dx dy dz\<rparr>)))))"

definition manifold_small :: "eigh_fn \<Rightarrow> cmat gu \<Rightarrow> (axis \<Rightarrow> cmat) \<Rightarrow> error + manifold_result" where
  "manifold_small eigh HT D =
     bind_e (get_eigs eigh (u HT)) (\<lambda>(Wu, Vu).
     bind_e (get_eigs eigh (g HT)) (\<lambda>(Wg, Vg).
     let Mvu = Vu; Mvg = Vg in
     bind_e (transform Mvg Mvu (D axis_x)) (\<lambda>dx.
     bind_e (transform Mvg Mvu (D axis_y)) (\<lambda>dy.
     bind_e (transform Mvg Mvu (D axis_z)) (\<lambda>dz.
     Inr \<lparr>eigs = \<lparr>g = even_idx Wg, u = even_idx Wu\<rparr>,
          vecs = \<lparr>g = even_idx Mvg, u = even_idx Mvu\<rparr>,
          dips = by_axis (map even_idx (even_idx dx)) (map even_idx (even_idx dy))
                         (map even_idx (even_idx dz))\<rparr>)))))"

section \<open>Assembling the system\<close>

record system_result =
  sys :: manifold_result
  px :: cmat
  py :: cmat
  pz :: cmat

definition composite :: "nat \<Rightarrow> cmat \<Rightarrow> error + cmat" where
  \<comment> \<open>\<open>P = np.zeros((2n, 2n)); P[0:n, n:2n] = d; P[n:2n, 0:n] = d.conjugate().transpose()\<close>\<close>
  "composite n d =
     bind_e (set_block (np_zeros (2 * n) (2 * n)) 0 n n n d) (\<lambda>P1.
     set_block P1 n 0 n n (dagger d))"

definition system :: "constants \<Rightarrow> eigh_fn \<Rightarrow> real \<Rightarrow> bool \<Rightarrow> rvec \<Rightarrow> error + system_result" where
  "system c eigh b strain b_vec =
     (let P = dipole_matel;
          B = make_B_vector b b_vec in
      bind_e (manifold_blocks c B) (\<lambda>HT.
      bind_e (manifold eigh HT P) (\<lambda>sy.
      bind_e (composite 4 (dips sy axis_x)) (\<lambda>Px.
      bind_e (composite 4 (dips sy axis_y)) (\<lambda>Py.
      bind_e (composite 4 (dips sy axis_z)) (\<lambda>Pz.
      Inr \<lparr>sys = sy, px = Px, py = Py, pz = Pz\<rparr>))))))"

definition system_small :: "constants \<Rightarrow> eigh_fn \<Rightarrow> real \<Rightarrow> bool \<Rightarrow> error + system_result" where
  "system_small c eigh b strain =
     (let P = dipole_matel;
          B = make_B_vector b [0, 0, 1] in
      bind_e (manifold_blocks c B) (\<lambda>HT.
      bind_e (manifold_small eigh HT P) (\<lambda>sy.
      bind_e (composite 2 (dips sy axis_x)) (\<lambda>Px.
      bind_e (composite 2 (dips sy axis_y)) (\<lambda>Py.
      bind_e (composite 2 (dips sy axis_z)) (\<lambda>Pz.
      Inr \<lparr>sys = sy, px = Px, py = Py, pz = Pz\<rparr>))))))"

section \<open>Enlarged operators\<close>

fun foldM_e :: "('b \<Rightarrow> 'a \<Rightarrow> error + 'b) \<Rightarrow> 'a list \<Rightarrow> 'b \<Rightarrow> error + 'b" where
  \<comment> \<open>a \<open>for\<close> loop over a list that updates \<open>acc\<close> and stops at the first exception\<close>
  "foldM_e f [] acc = Inr acc"
| "foldM_e f (a # as) acc = bind_e (f acc a) (foldM_e f as)"

definition get1 :: "'a list \<Rightarrow> nat \<Rightarrow> error + 'a" where
  "get1 xs i = (if i < length xs then Inr (xs ! i) else Inl IndexError)"

definition get2 :: "'a list list \<Rightarrow> nat \<Rightarrow> nat \<Rightarrow> error + 'a" where
  \<comment> \<open>\<open>M[i, j]\<close>\<close>
  "get2 M i j = bind_e (get1 M i) (\<lambda>row. get1 row j)"

definition set2 :: "'a list list \<Rightarrow> nat \<Rightarrow> nat \<Rightarrow> 'a \<Rightarrow> error + 'a list list" where
  \<comment> \<open>\<open>M[i, j] = v\<close>\<close>
  "set2 M i j v =
     (if i < length M \<and> j < length (M ! i) then Inr (M[i := (M ! i)[j := v]])
      else Inl IndexError)"

primrec index_of :: "'a list \<Rightarrow> 'a \<Rightarrow> error + nat" where
  \<comment> \<open>\<open>xs.index(x)\<close>: the first position of \<open>x\<close>, or \<open>ValueError\<close>\<close>
  "index_of [] x = Inl ValueError"
| "index_of (y # ys) x =
     (if y = x then Inr 0 else bind_e (index_of ys x) (\<lambda>i. Inr (Suc i)))"

definition onehot :: "nat \<Rightarrow> nat \<Rightarrow> nat list" where
  "onehot dm n = map (\<lambda>i. if i \<noteq> n then 0 else 1) [0..<dm]"

definition make_base :: "nat \<Rightarrow> (nat list \<times> nat) list" where
  \<comment> \<open>the flattened list of the pairs \<open>[one-hot vector, label]\<close>, label outermost\<close>
  "make_base dm =
     concat (map (\<lambda>l. map (\<lambda>n. (onehot dm n, if l = 0 then 0 else 1)) [0..<dm]) [0..<2])"

definition fill_diag :: "real list list \<Rightarrow> real list \<Rightarrow> error + real list list" where
  \<comment> \<open>\<open>for i, k in enumerate(ks): H[i, i] = k\<close>\<close>
  "fill_diag H ks = foldM_e (\<lambda>H' (i, k). set2 H' i i k) (List.enumerate 0 ks) H"

definition vacancy_loop :: "nat \<Rightarrow> real list list \<Rightarrow> error + real list list" where
  \<comment> \<open>\<open>vacancy\<close> from the construction of \<open>base\<close> on\<close>
  "vacancy_loop dm H =
     (let base = make_base dm;
          snv_base = map (\<lambda>n. onehot dm n) [0..<dm];
          hdim = length base;
          vacancy_ham = np_zeros hdim hdim
      in foldM_e (\<lambda>vh (k, b).
           let index = k in
           bind_e (index_of snv_base (fst b)) (\<lambda>internal_index.
           bind_e (get2 vh index k) (\<lambda>cur.
           bind_e (get2 H internal_index internal_index) (\<lambda>h.
           set2 vh index k (cur + h)))))
         (List.enumerate 0 base) vacancy_ham)"

definition vacancy :: "constants \<Rightarrow> eigh_fn \<Rightarrow> real \<Rightarrow> rvec \<Rightarrow> error + real list list" where
  "vacancy c eigh epsilon b_vec =
     bind_e (system c eigh epsilon False b_vec) (\<lambda>sy.
     let dip_mat = px sy;
         dm = length dip_mat in
     bind_e (fill_diag (np_zeros 8 8) (g (eigs (sys sy)) @ u (eigs (sys sy)))) (\<lambda>H.
     vacancy_loop dm H))"

definition vacancy4lvl :: "constants \<Rightarrow> eigh_fn \<Rightarrow> error + real list list" where
  "vacancy4lvl c eigh =
     (let epsilon = 1 / 10 ^ 6 in
      bind_e (system c eigh epsilon False [0, 0, 1]) (\<lambda>sy.
      fill_diag (np_zeros 4 4) (even_idx (g (eigs (sys sy))) @ even_idx (u (eigs (sys sy))))))"

definition vacancy_all_lvl :: "constants \<Rightarrow> eigh_fn \<Rightarrow> real \<Rightarrow> rvec \<Rightarrow> error + real list list" where
  "vacancy_all_lvl c eigh epsilon b_vec =
     bind_e (system c eigh epsilon False b_vec) (\<lambda>sy.
     let dip_mat = px sy;
         dm = length dip_mat in
     fill_diag (np_zeros dm dm) (g (eigs (sys sy)) @ u (eigs (sys sy))))"

definition energy :: "constants \<Rightarrow> eigh_fn \<Rightarrow> real \<Rightarrow> rvec \<Rightarrow> error + real list" where
  "energy c eigh epsilon b_vec =
     bind_e (system c eigh epsilon False b_vec) (\<lambda>sy.
     Inr (g (eigs (sys sy)) @ u (eigs (sys sy))))"

definition weighted :: "system_result \<Rightarrow> complex list \<Rightarrow> error + cmat" where
  \<comment> \<open>\<open>px * polarization[0] + py * polarization[1] + pz * polarization[2]\<close>\<close>
  "weighted sy polarization =
     bind_e (get1 polarization 0) (\<lambda>w0.
     bind_e (get1 polarization 1) (\<lambda>w1.
     bind_e (get1 polarization 2) (\<lambda>w2.
     Inr (np_add (np_add (np_scale w0 (px sy)) (np_scale w1 (py sy))) (np_scale w2 (pz sy))))))"

definition dipole_mat :: "constants \<Rightarrow> eigh_fn \<Rightarrow> complex list \<Rightarrow> real \<Rightarrow> rvec \<Rightarrow> error + cmat" where
  "dipole_mat c eigh polarization epsilon b_vec =
     bind_e (system c eigh epsilon False b_vec) (\<lambda>sy. weighted sy polarization)"

definition dipole_mat_bfield :: "constants \<Rightarrow> eigh_fn \<Rightarrow> complex list \<Rightarrow> real \<Rightarrow> real \<Rightarrow> error + cmat" where
  "dipole_mat_bfield c eigh polarization phi bm =
     (let b_vec = [cos phi, 0, sin phi];
          epsilon = bm in
      bind_e (system c eigh epsilon False b_vec) (\<lambda>sy. weighted sy polarization))"

definition dip_ham_loop :: "cmat \<Rightarrow> error + cmat" where
  \<comment> \<open>\<open>dipole_ham\<close> and \<open>dipole_ham_bfield\<close> from \<open>dim = len(dip_mat)\<close> on\<close>
  "dip_ham_loop dip_mat =
     (let dm = length dip_mat;
          base = make_base dm;
          hdim = length base;
          dip_ham = np_zeros hdim hdim
      in foldM_e (\<lambda>dh (k, b).
           let state = b; fac = (1::int) in
           if fac > 0 then
             foldM_e (\<lambda>dh1 l.
               foldM_e (\<lambda>dh2 m.
                 bind_e (get1 (fst state) m) (\<lambda>occ.
                 if occ = 1 then
                   let out_state = (map (\<lambda>n. if n \<noteq> l then 0 else 1) [0..<dm], snd state) in
                   bind_e (index_of base out_state) (\<lambda>index.
                   let internal_index = l in
                   bind_e (get2 dh2 index k) (\<lambda>cur.
                   bind_e (get2 dip_mat internal_index m) (\<lambda>d.
                   set2 dh2 index k (cur + d))))
                 else Inr dh2))
               [0..<dm] dh1)
             [0..<dm] dh
           else Inr dh)
         (List.enumerate 0 base) dip_ham)"

definition dipole_ham :: "constants \<Rightarrow> eigh_fn \<Rightarrow> complex list \<Rightarrow> real \<Rightarrow> rvec \<Rightarrow> error + cmat" where
  "dipole_ham c eigh polarization epsilon b_vec =
     bind_e (system c eigh epsilon False b_vec) (\<lambda>sy.
     bind_e (weighted sy polarization) dip_ham_loop)"

definition dipole_ham_bfield :: "constants \<Rightarrow> eigh_fn \<Rightarrow> complex list \<Rightarrow> real \<Rightarrow> real \<Rightarrow> error + cmat" where
  "dipole_ham_bfield c eigh polarization phi bm =
     (let b_vec = [cos phi, 0, sin phi];
          epsilon = bm in
      bind_e (system c eigh epsilon False b_vec) (\<lambda>sy.
      bind_e (weighted sy polarization) dip_ham_loop))"

section \<open>Reference inputs\<close>

text \<open>
  The values \<open>scipy.constants\<close> gives for the three constants (CODATA 2018), and what
  NumPy documents of \<open>eigh\<close>: for an \<open>n\<close> by \<open>n\<close> matrix, \<open>n\<close> eigenvalues and an
  \<open>n\<close> by \<open>n\<close> matrix of eigenvectors.
\<close>

definition codata :: constants where
  "codata = \<lparr>hbar = 1054571817 / 10 ^ 43, elementary_charge = 1602176634 / 10 ^ 28,
             m_e = 91093837015 / 10 ^ 41\<rparr>"

definition eigh_contract :: "eigh_fn \<Rightarrow> bool" where
  "eigh_contract eigh =
     (\<forall>M w v. eigh M = Inr (w, v) \<longrightarrow> length w = length M \<and> is_mat (length M) (length M) v)"

text \<open>
  A stand-in for \<open>eigh\<close> on 4 by 4 matrices, for concrete runs of \<open>system\<close>: the
  eigenvalues come in descending order, so that \<open>get_eigs\<close> has to sort them, the
  eigenvector matrices are unitary and complex, and both differ between a matrix whose
  first diagonal entry is above 100 (the excited block, which carries \<open>ZPL\<close>) and one
  where it is not (the ground block).
\<close>

definition eigh_ref :: eigh_fn where
  "eigh_ref M =
     (if length M \<noteq> 4 then Inl LinAlgError
      else if 100 < Re (M ! 0 ! 0)
      then Inr ([14, 13, 12, 11],
                [[3 / 5, 0, 4 / 5 * \<i>, 0],
                 [0, 3 / 5, 0, 4 / 5 * \<i>],
                 [4 / 5 * \<i>, 0, 3 / 5, 0],
                 [0, 4 / 5 * \<i>, 0, 3 / 5]])
      else Inr ([4, 3, 2, 1],
                [[3 / 5, 4 / 5 * \<i>, 0, 0],
                 [4 / 5 * \<i>, 3 / 5, 0, 0],
                 [0, 0, 3 / 5, 4 / 5 * \<i>],
                 [0, 0, 4 / 5 * \<i>, 3 / 5]]))"

text \<open>
  What \<open>eigh\<close> returns on the diagonal matrix with the entries 2, 0, 1, 3: the
  eigenvalues in ascending order and, as columns, the unit vectors \<open>e1, e2, e0, e3\<close>.
\<close>

definition eigh_perm :: eigh_fn where
  "eigh_perm M =
     (if M = np_diag [2, 0, 1, 3]
      then Inr ([0, 1, 2, 3],
                [[0, 0, 1, 0],
                 [1, 0, 0, 0],
                 [0, 1, 0, 0],
                 [0, 0, 0, 1]])
      else Inl LinAlgError)"

section \<open>Closed forms of the enlarged operators\<close>

text \<open>
  \<open>tab n F\<close> is the \<open>n\<close> by \<open>n\<close> array with entry \<open>F r c\<close> at \<open>(r, c)\<close>.
  \<open>energy_part\<close> and \<open>coupling_part\<close> are the arrays the two loops over \<open>base\<close> have
  built after \<open>K\<close> columns (and, in column \<open>K\<close>, \<open>L\<close> levels).
\<close>

definition tab :: "nat \<Rightarrow> (nat \<Rightarrow> nat \<Rightarrow> 'a) \<Rightarrow> 'a list list" where
  "tab n F = map (\<lambda>r. map (\<lambda>c. F r c) [0..<n]) [0..<n]"

definition energy_part :: "nat \<Rightarrow> real list list \<Rightarrow> nat \<Rightarrow> real list list" where
  "energy_part dm H K =
     tab (2 * dm) (\<lambda>r c. if r = c \<and> c < K then H ! (c mod dm) ! (c mod dm) else 0)"

definition coupling_part :: "nat \<Rightarrow> cmat \<Rightarrow> nat \<Rightarrow> nat \<Rightarrow> cmat" where
  "coupling_part dm D K L =
     tab (2 * dm) (\<lambda>r c. if r div dm = c div dm \<and> (c < K \<or> (c = K \<and> r mod dm < L))
                          then D ! (r mod dm) ! (c mod dm) else 0)"

section \<open>The dipole transform as the specification words it\<close>

text \<open>
  The specification describes the transformed dipole matrix of an axis as the product of
  the conjugate transpose of the ground eigenvectors, the raw dipole matrix and the
  excited eigenvectors. \<open>dipole_product\<close> is the entry \<open>(i, j)\<close> of that product, written
  as the double sum; it follows the specification's words and uses nothing of
  \<open>np_dot\<close> or \<open>transform\<close>, with which the theorems compare it.
\<close>

definition dipole_product :: "cmat \<Rightarrow> cmat \<Rightarrow> cmat \<Rightarrow> nat \<Rightarrow> nat \<Rightarrow> complex" where
  "dipole_product Vg D Vu i j = (\<Sum>k<4. \<Sum>l<4. cnj (Vg ! k ! i) * D ! k ! l * Vu ! l ! j)"

section \<open>Basic facts about arrays\<close>

lemmas mat_eval = is_mat_def shape_def dagger_def np_transpose_def np_conjugate_def
  np_scale_def np_add_def np_add_scalar_def Let_def upt_conv_Cons eval_nat_numeral

lemma bind_e_simps [simp]: "bind_e (Inl e) f = Inl e" "bind_e (Inr v) f = f v"
  by (simp_all add: bind_e_def)

lemma length_Suc_ex: "length xs = Suc n \<Longrightarrow> \<exists>a as. xs = a # as \<and> length as = n"
  by (cases xs) simp_all

lemma row4: "length r = 4 \<Longrightarrow> \<exists>a b c d. r = [a, b, c, d]"
  by (auto simp: eval_nat_numeral dest!: length_Suc_ex)

lemma is_mat_4_4_D:
  assumes "is_mat 4 4 M"
  shows "\<exists>a0 a1 a2 a3 b0 b1 b2 b3 c0 c1 c2 c3 d0 d1 d2 d3.
           M = [[a0, a1, a2, a3], [b0, b1, b2, b3], [c0, c1, c2, c3], [d0, d1, d2, d3]]"
proof -
  from assms have "length M = 4" by (simp add: is_mat_def shape_def)
  then obtain r0 r1 r2 r3 where M: "M = [r0, r1, r2, r3]" using row4 by blast
  from assms M have "length r0 = 4" "length r1 = 4" "length r2 = 4" "length r3 = 4"
    by (simp_all add: is_mat_def shape_def eval_nat_numeral)
  then show ?thesis unfolding M using row4 by metis
qed

section \<open>The term builders are Hermitian\<close>

text \<open>
  Claim C9. For every real spin-orbit coefficient, Jahn-Teller pair, magnetic field
  of three real components, Zeeman factors and strain triple, each of \<open>H_SO\<close>,
  \<open>H_JT\<close>, \<open>H_ZL\<close>, \<open>H_ZS\<close> and \<open>H_st\<close> returns a 4 by 4 matrix that equals its
  conjugate transpose.
\<close>

theorem term_builders_hermitian:
  "(is_mat 4 4 (H_SO lam) \<and> dagger (H_SO lam) = H_SO lam)
   \<and> (\<exists>M. H_JT [xi_x, xi_y] = Inr M \<and> is_mat 4 4 M \<and> dagger M = M)
   \<and> (\<exists>M. H_ZL [Bx, By, Bz] gL f = Inr M \<and> is_mat 4 4 M \<and> dagger M = M)
   \<and> (\<exists>M. H_ZS [Bx, By, Bz] gS = Inr M \<and> is_mat 4 4 M \<and> dagger M = M)
   \<and> (is_mat 4 4 (H_st al be de) \<and> dagger (H_st al be de) = H_st al be de)"
  by (simp add: H_SO_def H_st_def mat_eval)

section \<open>The change of basis\<close>

text \<open>
  Claim C10. For every vector \<open>v\<close> of three reals, \<open>lattice_to_coord\<close> followed by
  \<open>coord_to_lattice\<close> returns \<open>v\<close>. Over the reals the two maps are exact inverses.
\<close>

theorem coord_roundtrip:
  "bind_e (lattice_to_coord [x, y, z]) coord_to_lattice = Inr [x, y, z]"
proof -
  have "coord_to_lattice (matvec lattice_basis [x, y, z]) = Inr [x, y, z]"
    by (simp add: matvec_def lattice_basis_def np_transpose_def Let_def upt_conv_Cons)
       (simp add: field_simps)
  then show ?thesis by simp
qed

section \<open>The field vector\<close>

text \<open>
  Claim C7. \<open>make_B_vector\<close> divides by the sum of the squares, not by its root: at
  magnitude 1 and direction \<open>[0, 0, 2]\<close> the vector returned is \<open>[0, 0, 1/2]\<close>, of
  Euclidean norm 1/2 and not 1.
\<close>

theorem make_B_vector_norm_at_2:
  "make_B_vector 1 [0, 0, 2] = Field [0, 0, 1 / 2] \<and> norm2 [0, 0, 1 / 2] = 1 / 2"
  by (simp add: make_B_vector_def norm2_def Let_def real_sqrt_divide power2_eq_square)

text \<open>
  Claim C8, as stated: on the zero vector \<open>make_B_vector\<close> fails with an error. It
  does not: at magnitude 1 it returns the array of three NaN.
\<close>

theorem make_B_vector_zero_counterexample:
  "make_B_vector 1 [0, 0, 0] = NaN_field 3"
  by (simp add: make_B_vector_def Let_def)

text \<open>
  Claim C8, amended. For every magnitude and every length \<open>n\<close>, \<open>make_B_vector\<close>
  raises nothing on the zero vector of length \<open>n\<close>: it returns the array of \<open>n\<close> NaN.
\<close>

theorem make_B_vector_zero:
  "make_B_vector magnitude (replicate n 0) = NaN_field n"
proof -
  have "sum_list (map (\<lambda>v. \<bar>v\<bar> ^ 2) (replicate n (0::real))) = 0"
    by (induction n) simp_all
  then show ?thesis by (simp add: make_B_vector_def Let_def)
qed

section \<open>The manifold blocks of the entry points\<close>

lemma HgL_Field3: "\<exists>M. HgL c (Field [bx, by, bz]) st = Inr M \<and> is_mat 4 4 M"
  by (simp add: Hg0_def H_SO_def H_st_def mat_eval)

lemma HuL_Field3: "\<exists>M. HuL c (Field [bx, by, bz]) st = Inr M \<and> is_mat 4 4 M"
  by (simp add: Hu0_def H_SO_def H_st_def mat_eval)

lemma manifold_blocks_Field3:
  "\<exists>Hg Hu. manifold_blocks c (Field [bx, by, bz]) = Inr \<lparr>g = Hg, u = Hu\<rparr>
      \<and> HgL c (Field [bx, by, bz]) s = Inr Hg \<and> is_mat 4 4 Hg \<and> is_mat 4 4 Hu"
proof -
  obtain Hg where Hg: "HgL c (Field [bx, by, bz]) s = Inr Hg" "is_mat 4 4 Hg"
    using HgL_Field3 by blast
  obtain hu where hu: "HuL c (Field [bx, by, bz]) s = Inr hu" "is_mat 4 4 hu"
    using HuL_Field3 by blast
  from is_mat_4_4_D [OF hu(2)] obtain a0 a1 a2 a3 b0 b1 b2 b3 c0 c1 c2 c3 d0 d1 d2 d3
    where "hu = [[a0, a1, a2, a3], [b0, b1, b2, b3], [c0, c1, c2, c3], [d0, d1, d2, d3]]"
    by blast
  then have "is_mat 4 4 (np_add (np_diag (replicate 4 ZPL)) hu)"
    by (simp add: np_diag_def mat_eval)
  with Hg hu show ?thesis by (simp add: manifold_blocks_def Let_def)
qed

lemma manifold_blocks_NaN: "manifold_blocks c (NaN_field n) = Inl (if n = 3 then NonFinite else ValueError)"
  by (simp add: manifold_blocks_def)

lemma make_B_vector_3:
  "make_B_vector m [p, q, r] = NaN_field 3 \<or> (\<exists>bx by bz. make_B_vector m [p, q, r] = Field [bx, by, bz])"
  by (simp add: make_B_vector_def Let_def)

lemma block_diag_4:
  assumes "is_mat 4 4 A" "is_mat 4 4 B"
  shows "\<exists>H. bind_e (set_block (np_zeros 8 8) 0 0 4 4 A) (\<lambda>H1. set_block H1 4 4 4 4 B) = Inr H
           \<and> is_mat 8 8 H \<and> get_block H 0 0 4 4 = A \<and> get_block H 4 4 4 4 = B
           \<and> get_block H 0 4 4 4 = np_zeros 4 4 \<and> get_block H 4 0 4 4 = np_zeros 4 4"
proof -
  from is_mat_4_4_D [OF assms(1)] obtain a0 a1 a2 a3 b0 b1 b2 b3 c0 c1 c2 c3 d0 d1 d2 d3
    where A: "A = [[a0, a1, a2, a3], [b0, b1, b2, b3], [c0, c1, c2, c3], [d0, d1, d2, d3]]"
    by blast
  from is_mat_4_4_D [OF assms(2)] obtain e0 e1 e2 e3 f0 f1 f2 f3 g0 g1 g2 g3 h0 h1 h2 h3
    where B: "B = [[e0, e1, e2, e3], [f0, f1, f2, f3], [g0, g1, g2, g3], [h0, h1, h2, h3]]"
    by blast
  show ?thesis unfolding A B
    by (simp add: set_block_def broadcast_to_def put_block_def get_block_def
        np_zeros_def mat_eval)
qed

lemma snv_blocks:
  "map_sum id (\<lambda>H. \<lparr>g = get_block H 4 4 4 4, u = get_block H 0 0 4 4\<rparr>)
     (snv_hamiltonian c b strain [x, y, z])
   = manifold_blocks c (make_B_vector b (matvec lattice_basis [x, y, z]))"
proof -
  obtain p q r where lc: "matvec lattice_basis [x, y, z] = [p, q, r]"
    by (simp add: matvec_def lattice_basis_def Let_def)
  from make_B_vector_3 [of b p q r] show ?thesis
  proof
    assume "make_B_vector b [p, q, r] = NaN_field 3"
    then show ?thesis
      by (simp add: snv_hamiltonian_def lc manifold_blocks_NaN Let_def)
  next
    assume "\<exists>bx by bz. make_B_vector b [p, q, r] = Field [bx, by, bz]"
    then obtain bx "by" bz where B: "make_B_vector b [p, q, r] = Field [bx, by, bz]" by blast
    from manifold_blocks_Field3 [of c bx "by" bz] obtain Hg Hu
      where HT: "manifold_blocks c (Field [bx, by, bz]) = Inr \<lparr>g = Hg, u = Hu\<rparr>"
        "is_mat 4 4 Hg" "is_mat 4 4 Hu" by blast
    from block_diag_4 [OF HT(3) HT(2)] obtain H where
      H: "bind_e (set_block (np_zeros 8 8) 0 0 4 4 Hu) (\<lambda>H1. set_block H1 4 4 4 4 Hg) = Inr H"
        "get_block H 0 0 4 4 = Hu" "get_block H 4 4 4 4 = Hg" by blast
    have "snv_hamiltonian c b strain [x, y, z] = Inr H"
      using lc B HT(1) H(1) by (simp add: snv_hamiltonian_def Let_def)
    then show ?thesis using lc B HT(1) H(2,3) by simp
  qed
qed


lemma HgL_entry_01:
  "map_sum id (\<lambda>M. M ! 0 ! 1) (HgL c (Field [bx, by, bz]) st)
   = Inr (complex_of_real (gamma_S c) * (complex_of_real bx - \<i> * complex_of_real by))"
  by (simp add: Hg0_def H_SO_def H_st_def mat_eval)

lemma HgL_entry_00:
  "map_sum id (\<lambda>M. M ! 0 ! 0) (HgL c (Field [bx, by, bz]) st)
   = Inr (complex_of_real (xi_xg + gamma_S c * bz + (if st then alpha_g - delta_g else 0)))"
  by (simp add: Hg0_def H_SO_def H_st_def mat_eval)

lemma gamma_S_codata: "gamma_S codata \<noteq> 0"
  by (simp add: gamma_S_def gamma_L_def mu_B_def codata_def)

lemma make_B_unit: "make_B_vector 1 (matvec lattice_basis [0, 0, 1]) = Field [1 / sqrt 6, - (1 / sqrt 2), 1 / sqrt 3]"
  by (simp add: make_B_vector_def matvec_def lattice_basis_def Let_def power2_eq_square power_divide)

lemma make_B_z: "make_B_vector 1 [0, 0, 1] = Field [0, 0, 1]"
  by (simp add: make_B_vector_def Let_def)

text \<open>
  Claim C5, as stated: \<open>snv_hamiltonian\<close> and \<open>system\<close> read the direction in one
  frame, so the ground block of \<open>snv_hamiltonian\<close> is the ground matrix \<open>system\<close>
  diagonalises for the same arguments. At magnitude 1 and the default direction
  \<open>[0, 0, 1]\<close> the two differ.
\<close>

theorem snv_hamiltonian_frame_counterexample:
  "map_sum id (\<lambda>H. get_block H 4 4 4 4) (snv_hamiltonian codata 1 False [0, 0, 1])
   \<noteq> map_sum id g (manifold_blocks codata (make_B_vector 1 [0, 0, 1]))"
proof
  assume eq: "map_sum id (\<lambda>H. get_block H 4 4 4 4) (snv_hamiltonian codata 1 False [0, 0, 1])
     = map_sum id g (manifold_blocks codata (make_B_vector 1 [0, 0, 1]))"
  have "map_sum id (\<lambda>H. get_block H 4 4 4 4) (snv_hamiltonian codata 1 False [0, 0, 1])
     = map_sum id g (map_sum id (\<lambda>H. \<lparr>g = get_block H 4 4 4 4, u = get_block H 0 0 4 4\<rparr>)
         (snv_hamiltonian codata 1 False [0, 0, 1]))"
    by (simp add: sum.map_comp comp_def id_def)
  also have "\<dots> = map_sum id g (manifold_blocks codata (Field [1 / sqrt 6, - (1 / sqrt 2), 1 / sqrt 3]))"
    by (simp only: snv_blocks make_B_unit)
  finally have 1: "map_sum id g (manifold_blocks codata (Field [1 / sqrt 6, - (1 / sqrt 2), 1 / sqrt 3]))
     = map_sum id g (manifold_blocks codata (Field [0, 0, 1]))"
    using eq by (simp add: make_B_z)
  have blocks: "map_sum id g (manifold_blocks c (Field [bx, by, bz])) = HgL c (Field [bx, by, bz]) s"
    for c bx "by" bz
    using manifold_blocks_Field3 [of c bx "by" bz] by auto
  from 1 have "HgL codata (Field [1 / sqrt 6, - (1 / sqrt 2), 1 / sqrt 3]) s
     = HgL codata (Field [0, 0, 1]) s"
    by (simp only: blocks)
  then have "map_sum id (\<lambda>M. M ! 0 ! 1) (HgL codata (Field [1 / sqrt 6, - (1 / sqrt 2), 1 / sqrt 3]) s)
     = map_sum id (\<lambda>M. M ! 0 ! 1) (HgL codata (Field [0, 0, 1]) s)"
    by simp
  then show False
    using gamma_S_codata by (simp only: HgL_entry_01) (simp add: complex_eq_iff)
qed

text \<open>
  Claim C1. The entry points take a strain flag and pass the module's \<open>s\<close>, which is
  \<open>False\<close>, to \<open>_HgL\<close> and \<open>_HuL\<close>: the flag changes nothing. With the flag set, at
  magnitude 1 and direction \<open>[0, 0, 1]\<close>, the ground block of \<open>snv_hamiltonian\<close> is the
  sum without the strain term, which is not the sum with it.
\<close>

theorem strain_flag_ignored:
  "snv_hamiltonian c b True d = snv_hamiltonian c b False d
   \<and> system c eigh b True d = system c eigh b False d
   \<and> system_small c eigh b True = system_small c eigh b False
   \<and> map_sum id (\<lambda>H. get_block H 4 4 4 4) (snv_hamiltonian c 1 True [0, 0, 1])
       = HgL c (Field [1 / sqrt 6, - (1 / sqrt 2), 1 / sqrt 3]) False
   \<and> HgL c (Field [1 / sqrt 6, - (1 / sqrt 2), 1 / sqrt 3]) False
       \<noteq> HgL c (Field [1 / sqrt 6, - (1 / sqrt 2), 1 / sqrt 3]) True"
proof -
  let ?B = "Field [1 / sqrt 6, - (1 / sqrt 2), 1 / sqrt 3]"
  have flags: "snv_hamiltonian c b True d = snv_hamiltonian c b False d"
    "system c eigh b True d = system c eigh b False d"
    "system_small c eigh b True = system_small c eigh b False"
    by (simp_all add: snv_hamiltonian_def system_def system_small_def)
  have "map_sum id (\<lambda>H. get_block H 4 4 4 4) (snv_hamiltonian c 1 True [0, 0, 1])
     = map_sum id g (map_sum id (\<lambda>H. \<lparr>g = get_block H 4 4 4 4, u = get_block H 0 0 4 4\<rparr>)
         (snv_hamiltonian c 1 True [0, 0, 1]))"
    by (simp add: sum.map_comp comp_def id_def)
  also have "\<dots> = map_sum id g (manifold_blocks c ?B)"
    by (simp only: snv_blocks make_B_unit)
  also have "\<dots> = HgL c ?B False"
    using manifold_blocks_Field3 [of c "1 / sqrt 6" "- (1 / sqrt 2)" "1 / sqrt 3"]
    by (auto simp: s_def)
  finally have block: "map_sum id (\<lambda>H. get_block H 4 4 4 4) (snv_hamiltonian c 1 True [0, 0, 1])
     = HgL c ?B False" .
  have differ: "HgL c ?B False \<noteq> HgL c ?B True"
  proof
    assume "HgL c ?B False = HgL c ?B True"
    then have "map_sum id (\<lambda>M. M ! 0 ! 0) (HgL c ?B False)
       = map_sum id (\<lambda>M. M ! 0 ! 0) (HgL c ?B True)"
      by simp
    then show False
      by (simp only: HgL_entry_00) (simp add: alpha_g_def delta_g_def)
  qed
  from flags block differ show ?thesis by blast
qed

section \<open>Diagonalisation and the composite dipole operators\<close>

lemma bind_e_eq_Inr: "bind_e m f = Inr y \<longleftrightarrow> (\<exists>x. m = Inr x \<and> f x = Inr y)"
  by (cases m) simp_all

lemma mapM_e_Inr:
  "(\<And>x. x \<in> set xs \<Longrightarrow> f x = Inr (h x)) \<Longrightarrow> mapM_e f xs = Inr (map h xs)"
  by (induction xs) simp_all

lemma argsort_set: "set (argsort w) = {0..<length w}"
  by (simp add: argsort_def)

lemma argsort_length: "length (argsort w) = length w"
  by (simp add: argsort_def)

lemma take_idx_argsort:
  "length xs = length w \<Longrightarrow> take_idx xs (argsort w) = Inr (map (\<lambda>i. xs ! i) (argsort w))"
  by (simp add: take_idx_def list_all_iff argsort_set)

lemma sorted_argsort: "sorted (map (\<lambda>i. w ! i) (argsort w))"
  by (simp add: argsort_def)

lemma is_mat_iff: "is_mat n m M \<longleftrightarrow> length M = n \<and> (\<forall>r \<in> set M. length r = m)"
proof -
  have "map length M = replicate n m \<longleftrightarrow> length M = n \<and> (\<forall>i<length M. length (M ! i) = m)"
    by (auto simp: list_eq_iff_nth_eq)
  then show ?thesis
    unfolding is_mat_def shape_def by (simp add: all_set_conv_all_nth)
qed

lemma get_eigs_contract:
  assumes "eigh_contract eigh" "get_eigs eigh M = Inr (W, V)" "length M = n"
  shows "length W = n \<and> is_mat n n V \<and> sorted W"
proof -
  from assms(2) obtain w v where e: "eigh M = Inr (w, v)"
    by (auto simp: get_eigs_def bind_e_eq_Inr)
  with assms(1,3) have w: "length w = n" and v: "is_mat n n v"
    by (auto simp: eigh_contract_def)
  have rows: "mapM_e (\<lambda>row. take_idx row (argsort w)) v
      = Inr (map (\<lambda>row. map (\<lambda>i. row ! i) (argsort w)) v)"
    using v w by (intro mapM_e_Inr take_idx_argsort) (simp add: is_mat_iff)
  from assms(2) e rows w have W: "W = map (\<lambda>i. w ! i) (argsort w)"
    and V: "V = map (\<lambda>row. map (\<lambda>i. row ! i) (argsort w)) v"
    by (simp_all add: get_eigs_def Let_def take_idx_argsort)
  show ?thesis
    using w v by (simp add: W V sorted_argsort argsort_length is_mat_iff)
qed


lemma dipole_matel_shape: "is_mat 4 4 (dipole_matel a)"
  by (cases a) (simp_all add: dipole_matel_def mat_eval)

lemma np_dot_4:
  assumes "is_mat 4 4 A" "is_mat 4 4 B"
  shows "\<exists>C. np_dot A B = Inr C \<and> is_mat 4 4 C"
proof -
  from is_mat_4_4_D [OF assms(1)] obtain a0 a1 a2 a3 b0 b1 b2 b3 c0 c1 c2 c3 d0 d1 d2 d3
    where A: "A = [[a0, a1, a2, a3], [b0, b1, b2, b3], [c0, c1, c2, c3], [d0, d1, d2, d3]]"
    by blast
  from is_mat_4_4_D [OF assms(2)] obtain e0 e1 e2 e3 f0 f1 f2 f3 g0 g1 g2 g3 h0 h1 h2 h3
    where B: "B = [[e0, e1, e2, e3], [f0, f1, f2, f3], [g0, g1, g2, g3], [h0, h1, h2, h3]]"
    by blast
  show ?thesis unfolding A B
    by (simp add: np_dot_def ncols_def mat_eval)
qed

lemma dagger_4: "is_mat 4 4 A \<Longrightarrow> is_mat 4 4 (dagger A)"
  by (drule is_mat_4_4_D) (auto simp: mat_eval)

lemma transform_4:
  assumes "is_mat 4 4 Vg" "is_mat 4 4 Vu" "is_mat 4 4 D"
  shows "\<exists>d. transform Vg Vu D = Inr d \<and> is_mat 4 4 d"
proof -
  from np_dot_4 [OF assms(3,2)] obtain t where t: "np_dot D Vu = Inr t" "is_mat 4 4 t" by blast
  from np_dot_4 [OF dagger_4 [OF assms(1)] t(2)] t(1) show ?thesis
    by (simp add: transform_def)
qed

lemma manifold_blocks_shape:
  assumes "manifold_blocks c B = Inr HT"
  shows "is_mat 4 4 (g HT) \<and> is_mat 4 4 (u HT)"
proof (cases B)
  case (NaN_field n)
  with assms show ?thesis by (simp add: manifold_blocks_NaN)
next
  case (Field v)
  from assms Field obtain zl where "H_ZL v (gamma_L c) f_g = Inr zl"
    by (auto simp: manifold_blocks_def bind_e_eq_Inr)
  then obtain bx "by" bz where "v = [bx, by, bz]"
    by (cases "(v, gamma_L c, f_g)" rule: H_ZL.cases) auto
  with assms Field manifold_blocks_Field3 [of c bx "by" bz] show ?thesis by auto
qed

lemma manifold_contract:
  assumes "eigh_contract eigh" "manifold eigh HT D = Inr mr"
    "is_mat 4 4 (g HT)" "is_mat 4 4 (u HT)" "\<And>a. is_mat 4 4 (D a)"
  shows "length (g (eigs mr)) = 4 \<and> length (u (eigs mr)) = 4
       \<and> sorted (g (eigs mr)) \<and> sorted (u (eigs mr))
       \<and> is_mat 4 4 (g (vecs mr)) \<and> is_mat 4 4 (u (vecs mr))
       \<and> (\<forall>a. is_mat 4 4 (dips mr a)
              \<and> transform (g (vecs mr)) (u (vecs mr)) (D a) = Inr (dips mr a))"
proof -
  from assms(2) obtain Wu Vu Wg Vg dx dy dz where
    eu: "get_eigs eigh (u HT) = Inr (Wu, Vu)" and eg: "get_eigs eigh (g HT) = Inr (Wg, Vg)"
    and dx: "transform Vg Vu (D axis_x) = Inr dx"
    and dy: "transform Vg Vu (D axis_y) = Inr dy"
    and dz: "transform Vg Vu (D axis_z) = Inr dz"
    and mr: "mr = \<lparr>eigs = \<lparr>g = Wg, u = Wu\<rparr>, vecs = \<lparr>g = Vg, u = Vu\<rparr>, dips = by_axis dx dy dz\<rparr>"
    by (auto simp: manifold_def bind_e_eq_Inr Let_def)
  from assms(3,4) have len: "length (g HT) = 4" "length (u HT) = 4"
    by (simp_all add: is_mat_def shape_def)
  from get_eigs_contract [OF assms(1) eu len(2)] get_eigs_contract [OF assms(1) eg len(1)]
  have shapes: "length Wu = 4" "is_mat 4 4 Vu" "sorted Wu" "length Wg = 4" "is_mat 4 4 Vg" "sorted Wg"
    by simp_all
  have "is_mat 4 4 (by_axis dx dy dz a) \<and> transform Vg Vu (D a) = Inr (by_axis dx dy dz a)" for a
    using transform_4 [OF shapes(5,2) assms(5), of a] dx dy dz
    by (cases a) (auto simp: by_axis_def)
  with shapes show ?thesis by (simp add: mr)
qed


lemma composite_4:
  assumes "is_mat 4 4 d"
  shows "\<exists>P. composite 4 d = Inr P \<and> is_mat 8 8 P \<and> dagger P = P
           \<and> get_block P 0 4 4 4 = d \<and> get_block P 4 0 4 4 = dagger d
           \<and> get_block P 0 0 4 4 = np_zeros 4 4 \<and> get_block P 4 4 4 4 = np_zeros 4 4"
proof -
  from is_mat_4_4_D [OF assms] obtain a0 a1 a2 a3 b0 b1 b2 b3 c0 c1 c2 c3 d0 d1 d2 d3
    where d: "d = [[a0, a1, a2, a3], [b0, b1, b2, b3], [c0, c1, c2, c3], [d0, d1, d2, d3]]"
    by blast
  show ?thesis unfolding d
    by (simp add: composite_def set_block_def broadcast_to_def put_block_def get_block_def
        np_zeros_def mat_eval)
qed

lemma system_parts:
  assumes "system c eigh b strain b_vec = Inr sy"
  shows "\<exists>HT. manifold_blocks c (make_B_vector b b_vec) = Inr HT
           \<and> manifold eigh HT dipole_matel = Inr (sys sy)
           \<and> (\<forall>a. composite 4 (dips (sys sy) a) = Inr (by_axis (px sy) (py sy) (pz sy) a))"
proof -
  from assms obtain HT mr Px Py Pz where
    "manifold_blocks c (make_B_vector b b_vec) = Inr HT" "manifold eigh HT dipole_matel = Inr mr"
    "composite 4 (dips mr axis_x) = Inr Px" "composite 4 (dips mr axis_y) = Inr Py"
    "composite 4 (dips mr axis_z) = Inr Pz" "sy = \<lparr>sys = mr, px = Px, py = Py, pz = Pz\<rparr>"
    by (auto simp: system_def bind_e_eq_Inr Let_def)
  moreover have "composite 4 (dips mr a) = Inr (by_axis Px Py Pz a)" for a
    using calculation by (cases a) (simp_all add: by_axis_def)
  ultimately show ?thesis by simp
qed

lemma system_shapes:
  assumes "eigh_contract eigh" "system c eigh b strain b_vec = Inr sy"
  shows "length (g (eigs (sys sy))) = 4 \<and> length (u (eigs (sys sy))) = 4
       \<and> sorted (g (eigs (sys sy))) \<and> sorted (u (eigs (sys sy)))
       \<and> is_mat 4 4 (g (vecs (sys sy))) \<and> is_mat 4 4 (u (vecs (sys sy)))
       \<and> (\<forall>a. is_mat 4 4 (dips (sys sy) a)
              \<and> transform (g (vecs (sys sy))) (u (vecs (sys sy))) (dipole_matel a)
                  = Inr (dips (sys sy) a))"
proof -
  from system_parts [OF assms(2)] obtain HT where
    HT: "manifold_blocks c (make_B_vector b b_vec) = Inr HT"
    and mr: "manifold eigh HT dipole_matel = Inr (sys sy)" by blast
  from manifold_blocks_shape [OF HT] have "is_mat 4 4 (g HT)" "is_mat 4 4 (u HT)" by simp_all
  from manifold_contract [OF assms(1) mr this dipole_matel_shape] show ?thesis .
qed

lemma system_returns:
  assumes "eigh_contract eigh" "\<And>M. length M = 4 \<Longrightarrow> \<exists>w v. eigh M = Inr (w, v)"
    "make_B_vector b b_vec = Field [bx, by, bz]"
  shows "\<exists>sy. system c eigh b strain b_vec = Inr sy"
proof -
  from manifold_blocks_Field3 [of c bx "by" bz] obtain Hg Hu where
    HT: "manifold_blocks c (Field [bx, by, bz]) = Inr \<lparr>g = Hg, u = Hu\<rparr>"
    "is_mat 4 4 Hg" "is_mat 4 4 Hu" by blast
  have ge: "\<exists>W V. get_eigs eigh M = Inr (W, V)" if "length M = 4" for M
  proof -
    from assms(2) [OF that] obtain w v where e: "eigh M = Inr (w, v)" by blast
    with assms(1) that have w: "length w = 4" and v: "is_mat 4 4 v"
      by (auto simp: eigh_contract_def dest!: spec [of _ M])
    have "mapM_e (\<lambda>row. take_idx row (argsort w)) v
        = Inr (map (\<lambda>row. map (\<lambda>i. row ! i) (argsort w)) v)"
      using v w by (intro mapM_e_Inr take_idx_argsort) (simp add: is_mat_iff)
    with e show ?thesis by (simp add: get_eigs_def Let_def take_idx_argsort)
  qed
  from ge [of Hu] HT(3) obtain Wu Vu where eu: "get_eigs eigh Hu = Inr (Wu, Vu)"
    by (auto simp: is_mat_def shape_def)
  from ge [of Hg] HT(2) obtain Wg Vg where eg: "get_eigs eigh Hg = Inr (Wg, Vg)"
    by (auto simp: is_mat_def shape_def)
  from HT(2,3) have len: "length Hg = 4" "length Hu = 4" by (simp_all add: is_mat_def shape_def)
  from get_eigs_contract [OF assms(1) eu len(2)] get_eigs_contract [OF assms(1) eg len(1)]
  have V: "is_mat 4 4 Vu" "is_mat 4 4 Vg" by simp_all
  from transform_4 [OF V(2,1) dipole_matel_shape] obtain dx dy dz where
    d: "transform Vg Vu (dipole_matel axis_x) = Inr dx" "is_mat 4 4 dx"
       "transform Vg Vu (dipole_matel axis_y) = Inr dy" "is_mat 4 4 dy"
       "transform Vg Vu (dipole_matel axis_z) = Inr dz" "is_mat 4 4 dz" by metis
  from composite_4 [OF d(2)] composite_4 [OF d(4)] composite_4 [OF d(6)] obtain Px Py Pz where
    "composite 4 dx = Inr Px" "composite 4 dy = Inr Py" "composite 4 dz = Inr Pz" by blast
  with HT(1) eu eg d assms(3) show ?thesis
    by (simp add: system_def manifold_def Let_def by_axis_def)
qed

lemma eigh_ref_contract: "eigh_contract eigh_ref"
  by (auto simp: eigh_contract_def eigh_ref_def mat_eval split: if_splits)

lemma eigh_ref_total: "length M = 4 \<Longrightarrow> \<exists>w v. eigh_ref M = Inr (w, v)"
  by (simp add: eigh_ref_def)

lemma argsort_desc: "argsort [a + 3, a + 2, a + 1, a] = [3, 2, 1, 0]"
  by (simp add: argsort_def upt_conv_Cons eval_nat_numeral)

lemma get_eigs_ref_low:
  assumes "length M = 4" "Re (M ! 0 ! 0) \<le> 100"
  shows "get_eigs eigh_ref M
       = Inr ([1, 2, 3, 4],
              [[0, 0, 4 / 5 * \<i>, 3 / 5],
               [0, 0, 3 / 5, 4 / 5 * \<i>],
               [4 / 5 * \<i>, 3 / 5, 0, 0],
               [3 / 5, 4 / 5 * \<i>, 0, 0]])"
proof -
  have "argsort [4, 3, 2, 1] = [3, 2, 1, 0]"
    using argsort_desc [of 1] by simp
  with assms show ?thesis
    by (simp add: get_eigs_def eigh_ref_def take_idx_def Let_def)
qed

lemma get_eigs_ref_high:
  assumes "length M = 4" "100 < Re (M ! 0 ! 0)"
  shows "get_eigs eigh_ref M
       = Inr ([11, 12, 13, 14],
              [[0, 4 / 5 * \<i>, 0, 3 / 5],
               [4 / 5 * \<i>, 0, 3 / 5, 0],
               [0, 3 / 5, 0, 4 / 5 * \<i>],
               [3 / 5, 0, 4 / 5 * \<i>, 0]])"
proof -
  have "argsort [14, 13, 12, 11] = [3, 2, 1, 0]"
    using argsort_desc [of 11] by simp
  with assms show ?thesis
    by (simp add: get_eigs_def eigh_ref_def take_idx_def Let_def)
qed

lemma manifold_blocks_corner:
  "map_sum id (\<lambda>HT. (g HT ! 0 ! 0, u HT ! 0 ! 0)) (manifold_blocks c (Field [bx, by, bz]))
   = Inr (complex_of_real (xi_xg + gamma_S c * bz),
          complex_of_real (ZPL + (xi_xu + gamma_S c * bz)))"
  by (simp add: manifold_blocks_def Hg0_def Hu0_def H_SO_def H_st_def np_diag_def s_def mat_eval)

lemma manifold_parts:
  assumes "manifold eigh HT D = Inr mr"
  shows "get_eigs eigh (g HT) = Inr (g (eigs mr), g (vecs mr))"
    "get_eigs eigh (u HT) = Inr (u (eigs mr), u (vecs mr))"
  using assms by (auto simp: manifold_def bind_e_eq_Inr Let_def)

lemma gamma_S_codata_bounds: "0 \<le> gamma_S codata \<and> gamma_S codata \<le> 1"
  by (simp add: gamma_S_def gamma_L_def mu_B_def codata_def)

lemma corner_bounds:
  assumes "0 \<le> bz" "bz \<le> 1"
  shows "xi_xg + gamma_S codata * bz \<le> 100" "100 < ZPL + (xi_xu + gamma_S codata * bz)"
proof -
  from assms gamma_S_codata_bounds have p: "0 \<le> gamma_S codata * bz" "gamma_S codata * bz \<le> 1"
    by (simp_all add: mult_le_one)
  from p pi_less_4 show "xi_xg + gamma_S codata * bz \<le> 100"
    by (simp add: xi_xg_def)
  from p pi_ge_two show "100 < ZPL + (xi_xu + gamma_S codata * bz)"
    by (simp add: ZPL_def xi_xu_def)
qed

lemma system_ref:
  assumes B: "make_B_vector b [0, 0, 1] = Field [0, 0, bz]" and bz: "0 \<le> bz" "bz \<le> 1"
    and sy: "system codata eigh_ref b strain [0, 0, 1] = Inr sy"
  shows "g (eigs (sys sy)) = [1, 2, 3, 4]" "u (eigs (sys sy)) = [11, 12, 13, 14]"
    "g (vecs (sys sy)) = [[0, 0, 4 / 5 * \<i>, 3 / 5],
               [0, 0, 3 / 5, 4 / 5 * \<i>],
               [4 / 5 * \<i>, 3 / 5, 0, 0],
               [3 / 5, 4 / 5 * \<i>, 0, 0]]"
    "u (vecs (sys sy)) = [[0, 4 / 5 * \<i>, 0, 3 / 5],
               [4 / 5 * \<i>, 0, 3 / 5, 0],
               [0, 3 / 5, 0, 4 / 5 * \<i>],
               [3 / 5, 0, 4 / 5 * \<i>, 0]]"
proof -
  from system_parts [OF sy] B obtain HT where
    HT: "manifold_blocks codata (Field [0, 0, bz]) = Inr HT"
    and mr: "manifold eigh_ref HT dipole_matel = Inr (sys sy)" by auto
  from manifold_blocks_shape [OF HT] have len: "length (g HT) = 4" "length (u HT) = 4"
    by (simp_all add: is_mat_def shape_def)
  from manifold_blocks_corner [of codata 0 0 bz] HT
  have "Re (g HT ! 0 ! 0) = xi_xg + gamma_S codata * bz"
    "Re (u HT ! 0 ! 0) = ZPL + (xi_xu + gamma_S codata * bz)" by simp_all
  with corner_bounds [OF bz] have "Re (g HT ! 0 ! 0) \<le> 100" "100 < Re (u HT ! 0 ! 0)" by simp_all
  with len manifold_parts [OF mr] get_eigs_ref_low [of "g HT"] get_eigs_ref_high [of "u HT"]
  show "g (eigs (sys sy)) = [1, 2, 3, 4]" "u (eigs (sys sy)) = [11, 12, 13, 14]"
    "g (vecs (sys sy)) = [[0, 0, 4 / 5 * \<i>, 3 / 5],
               [0, 0, 3 / 5, 4 / 5 * \<i>],
               [4 / 5 * \<i>, 3 / 5, 0, 0],
               [3 / 5, 4 / 5 * \<i>, 0, 0]]"
    "u (vecs (sys sy)) = [[0, 4 / 5 * \<i>, 0, 3 / 5],
               [4 / 5 * \<i>, 0, 3 / 5, 0],
               [0, 3 / 5, 0, 4 / 5 * \<i>],
               [3 / 5, 0, 4 / 5 * \<i>, 0]]"
    by simp_all
qed

lemma make_B_eps: "make_B_vector (1 / 10 ^ 6) [0, 0, 1] = Field [0, 0, 1 / 10 ^ 6]"
  by (simp add: make_B_vector_def Let_def)

lemma less_4_cases: "(i::nat) < 4 \<Longrightarrow> i = 0 \<or> i = 1 \<or> i = 2 \<or> i = 3"
  by arith

lemma sum_4: "(\<Sum>k<4::nat. f k) = f 0 + f 1 + f 2 + (f 3 :: complex)"
  by (simp add: eval_nat_numeral)

lemma np_dot_4_entries:
  assumes "is_mat 4 4 A" "is_mat 4 4 B" "np_dot A B = Inr C" "i < 4" "j < 4"
  shows "C ! i ! j = (\<Sum>k<4. A ! i ! k * B ! k ! j)"
proof -
  from is_mat_4_4_D [OF assms(1)] obtain a0 a1 a2 a3 b0 b1 b2 b3 c0 c1 c2 c3 d0 d1 d2 d3
    where A: "A = [[a0, a1, a2, a3], [b0, b1, b2, b3], [c0, c1, c2, c3], [d0, d1, d2, d3]]"
    by blast
  from is_mat_4_4_D [OF assms(2)] obtain e0 e1 e2 e3 f0 f1 f2 f3 g0 g1 g2 g3 h0 h1 h2 h3
    where B: "B = [[e0, e1, e2, e3], [f0, f1, f2, f3], [g0, g1, g2, g3], [h0, h1, h2, h3]]"
    by blast
  from assms(3) have C: "C = map (\<lambda>row. map (\<lambda>j. sum_list (map2 (*) row (map (\<lambda>r. r ! j) B)))
                               [0..<4]) A"
    unfolding A B by (simp add: np_dot_def ncols_def mat_eval split: if_splits)
  from less_4_cases [OF assms(4)] less_4_cases [OF assms(5)] show ?thesis
    unfolding C sum_4 A B by (elim disjE) (simp_all add: upt_conv_Cons eval_nat_numeral)
qed

lemma np_transpose_entry:
  assumes "is_mat n m A" "i < m" "j < n"
  shows "np_transpose A ! i ! j = A ! j ! i"
proof (cases A)
  case Nil
  with assms show ?thesis by (simp add: is_mat_def shape_def)
next
  case (Cons r rs)
  with assms(1) have "length r = m" "length A = n" by (simp_all add: is_mat_iff)
  with assms(2,3) Cons show ?thesis by (cases j) (simp_all add: np_transpose_def)
qed

lemma dagger_entry:
  assumes "is_mat n m A" "i < m" "j < n"
  shows "dagger A ! i ! j = cnj (A ! j ! i)"
proof -
  from assms(1) have c: "is_mat n m (np_conjugate A)"
    by (simp add: is_mat_iff np_conjugate_def)
  from assms have "j < length A" "i < length (A ! j)" by (simp_all add: is_mat_iff)
  then have "np_conjugate A ! j ! i = cnj (A ! j ! i)"
    by (simp add: np_conjugate_def)
  with np_transpose_entry [OF c assms(2,3)] show ?thesis
    by (simp add: dagger_def)
qed

lemma transform_entries:
  assumes "is_mat 4 4 Vg" "is_mat 4 4 Vu" "is_mat 4 4 D" "transform Vg Vu D = Inr d"
    "i < 4" "j < 4"
  shows "d ! i ! j = dipole_product Vg D Vu i j"
proof -
  from assms(4) obtain t where t: "np_dot D Vu = Inr t" and d: "np_dot (dagger Vg) t = Inr d"
    by (auto simp: transform_def bind_e_eq_Inr)
  from np_dot_4 [OF assms(3,2)] t have ts: "is_mat 4 4 t" by simp
  have "d ! i ! j = (\<Sum>k<4. dagger Vg ! i ! k * t ! k ! j)"
    by (rule np_dot_4_entries [OF dagger_4 [OF assms(1)] ts d assms(5,6)])
  also have "\<dots> = (\<Sum>k<4. cnj (Vg ! k ! i) * (\<Sum>l<4. D ! k ! l * Vu ! l ! j))"
  proof (rule sum.cong [OF refl])
    fix k assume "k \<in> {..<4::nat}"
    then have k: "k < 4" by simp
    show "dagger Vg ! i ! k * t ! k ! j = cnj (Vg ! k ! i) * (\<Sum>l<4. D ! k ! l * Vu ! l ! j)"
      by (simp only: dagger_entry [OF assms(1,5) k]
          np_dot_4_entries [OF assms(3,2) t k assms(6)])
  qed
  also have "\<dots> = dipole_product Vg D Vu i j"
    by (simp add: dipole_product_def sum_distrib_left mult.assoc)
  finally show ?thesis .
qed

lemma composite_4_entries:
  assumes "is_mat 4 4 d" "composite 4 d = Inr P" "i < 4" "j < 4"
  shows "P ! i ! (4 + j) = d ! i ! j" "P ! (4 + i) ! j = cnj (d ! j ! i)"
    "P ! i ! j = 0" "P ! (4 + i) ! (4 + j) = 0"
proof -
  from is_mat_4_4_D [OF assms(1)] obtain a0 a1 a2 a3 b0 b1 b2 b3 c0 c1 c2 c3 d0 d1 d2 d3
    where d: "d = [[a0, a1, a2, a3], [b0, b1, b2, b3], [c0, c1, c2, c3], [d0, d1, d2, d3]]"
    by blast
  from assms(2) have P: "P = [[0, 0, 0, 0, a0, a1, a2, a3], [0, 0, 0, 0, b0, b1, b2, b3],
      [0, 0, 0, 0, c0, c1, c2, c3], [0, 0, 0, 0, d0, d1, d2, d3],
      [cnj a0, cnj b0, cnj c0, cnj d0, 0, 0, 0, 0], [cnj a1, cnj b1, cnj c1, cnj d1, 0, 0, 0, 0],
      [cnj a2, cnj b2, cnj c2, cnj d2, 0, 0, 0, 0], [cnj a3, cnj b3, cnj c3, cnj d3, 0, 0, 0, 0]]"
    unfolding d
    by (simp add: composite_def set_block_def broadcast_to_def put_block_def
        np_zeros_def mat_eval)
  from less_4_cases [OF assms(3)] less_4_cases [OF assms(4)]
  show "P ! i ! (4 + j) = d ! i ! j" "P ! (4 + i) ! j = cnj (d ! j ! i)"
    "P ! i ! j = 0" "P ! (4 + i) ! (4 + j) = 0"
    unfolding P d by (elim disjE; simp add: eval_nat_numeral)+
qed

text \<open>
  Claim C6. Whenever \<open>system\<close> returns, with an \<open>eigh\<close> that keeps to its contract,
  each of its three composite dipole operators is an 8 by 8 Hermitian matrix (it equals
  its conjugate transpose, entry by entry). Its entry at row \<open>i\<close>, column \<open>4 + j\<close> is the
  entry \<open>(i, j)\<close> of the product of the conjugate transpose of the ground eigenvectors,
  the raw dipole matrix of the axis and the excited eigenvectors; its entry at row
  \<open>4 + i\<close>, column \<open>j\<close> is the conjugate of the entry \<open>(j, i)\<close> of that product; the two
  diagonal blocks are zero. The product is the one \<open>manifold\<close> stores under \<open>dips\<close>.
\<close>

theorem system_dipole_operators:
  assumes "eigh_contract eigh" and "system c eigh b strain b_vec = Inr sy"
  shows "is_mat 8 8 (by_axis (px sy) (py sy) (pz sy) a)
       \<and> dagger (by_axis (px sy) (py sy) (pz sy) a) = by_axis (px sy) (py sy) (pz sy) a
       \<and> (\<forall>r<8. \<forall>q<8. by_axis (px sy) (py sy) (pz sy) a ! r ! q
                         = cnj (by_axis (px sy) (py sy) (pz sy) a ! q ! r))
       \<and> (\<forall>i<4. \<forall>j<4.
             by_axis (px sy) (py sy) (pz sy) a ! i ! (4 + j)
               = dipole_product (g (vecs (sys sy))) (dipole_matel a) (u (vecs (sys sy))) i j
           \<and> by_axis (px sy) (py sy) (pz sy) a ! (4 + i) ! j
               = cnj (dipole_product (g (vecs (sys sy))) (dipole_matel a) (u (vecs (sys sy))) j i)
           \<and> by_axis (px sy) (py sy) (pz sy) a ! i ! j = 0
           \<and> by_axis (px sy) (py sy) (pz sy) a ! (4 + i) ! (4 + j) = 0)
       \<and> transform (g (vecs (sys sy))) (u (vecs (sys sy))) (dipole_matel a)
           = Inr (dips (sys sy) a)
       \<and> get_block (by_axis (px sy) (py sy) (pz sy) a) 0 4 4 4 = dips (sys sy) a
       \<and> get_block (by_axis (px sy) (py sy) (pz sy) a) 4 0 4 4 = dagger (dips (sys sy) a)
       \<and> get_block (by_axis (px sy) (py sy) (pz sy) a) 0 0 4 4 = np_zeros 4 4
       \<and> get_block (by_axis (px sy) (py sy) (pz sy) a) 4 4 4 4 = np_zeros 4 4"
proof -
  let ?P = "by_axis (px sy) (py sy) (pz sy) a"
  let ?d = "dips (sys sy) a"
  from system_shapes [OF assms] have d: "is_mat 4 4 ?d"
    and t: "transform (g (vecs (sys sy))) (u (vecs (sys sy))) (dipole_matel a) = Inr ?d"
    and V: "is_mat 4 4 (g (vecs (sys sy)))" "is_mat 4 4 (u (vecs (sys sy)))"
    by simp_all
  from system_parts [OF assms(2)] have comp: "composite 4 ?d = Inr ?P" by blast
  from composite_4 [OF d] comp have blocks: "is_mat 8 8 ?P" "dagger ?P = ?P"
    "get_block ?P 0 4 4 4 = ?d" "get_block ?P 4 0 4 4 = dagger ?d"
    "get_block ?P 0 0 4 4 = np_zeros 4 4" "get_block ?P 4 4 4 4 = np_zeros 4 4"
    by auto
  have herm: "?P ! r ! q = cnj (?P ! q ! r)" if "r < 8" "q < 8" for r q
    using dagger_entry [OF blocks(1) that] blocks(2) by simp
  have entries: "?P ! i ! (4 + j)
               = dipole_product (g (vecs (sys sy))) (dipole_matel a) (u (vecs (sys sy))) i j
           \<and> ?P ! (4 + i) ! j
               = cnj (dipole_product (g (vecs (sys sy))) (dipole_matel a) (u (vecs (sys sy))) j i)
           \<and> ?P ! i ! j = 0 \<and> ?P ! (4 + i) ! (4 + j) = 0" if "i < 4" "j < 4" for i j
    using composite_4_entries [OF d comp that]
      transform_entries [OF V dipole_matel_shape t that]
      transform_entries [OF V dipole_matel_shape t that(2,1)]
    by simp
  from blocks herm entries t show ?thesis by blast
qed

theorem system_dipole_operators_witness:
  "eigh_contract eigh_ref
   \<and> (\<exists>sy. system codata eigh_ref (1 / 10 ^ 6) False [0, 0, 1] = Inr sy
        \<and> is_mat 8 8 (px sy)
        \<and> px sy ! 0 ! 4 = - (9 / 25) \<and> px sy ! 0 ! 5 = 12 / 25 * \<i>
        \<and> px sy ! 0 ! 7 = - (16 / 25) \<and> px sy ! 3 ! 4 = 16 / 25
        \<and> px sy ! 5 ! 0 = - (12 / 25 * \<i>) \<and> px sy ! 7 ! 0 = - (16 / 25)
        \<and> px sy ! 4 ! 3 = 16 / 25
        \<and> px sy ! 0 ! 0 = 0 \<and> px sy ! 4 ! 4 = 0
        \<and> px sy ! 5 ! 0 = cnj (px sy ! 0 ! 5))"
proof -
  from system_returns [OF eigh_ref_contract eigh_ref_total make_B_eps, of codata False]
  obtain sy where sy: "system codata eigh_ref (1 / 10 ^ 6) False [0, 0, 1] = Inr sy" by blast
  note vs = system_ref(3,4) [OF make_B_eps _ _ sy]
  have ax: "by_axis (px sy) (py sy) (pz sy) axis_x = px sy" by (simp add: by_axis_def)
  from system_dipole_operators [OF eigh_ref_contract sy, of axis_x, unfolded ax]
  have shape: "is_mat 8 8 (px sy)"
    and herm: "\<forall>r<8. \<forall>q<8. px sy ! r ! q = cnj (px sy ! q ! r)"
    and entries: "\<forall>i<4. \<forall>j<4.
             px sy ! i ! (4 + j)
               = dipole_product (g (vecs (sys sy))) (dipole_matel axis_x) (u (vecs (sys sy))) i j
           \<and> px sy ! (4 + i) ! j
               = cnj (dipole_product (g (vecs (sys sy))) (dipole_matel axis_x) (u (vecs (sys sy))) j i)
           \<and> px sy ! i ! j = 0
           \<and> px sy ! (4 + i) ! (4 + j) = 0"
    by blast+
  have val: "dipole_product (g (vecs (sys sy))) (dipole_matel axis_x) (u (vecs (sys sy))) 0 0 = - (9 / 25)"
    "dipole_product (g (vecs (sys sy))) (dipole_matel axis_x) (u (vecs (sys sy))) 0 (Suc 0) = 12 / 25 * \<i>"
    "dipole_product (g (vecs (sys sy))) (dipole_matel axis_x) (u (vecs (sys sy))) 0 3 = - (16 / 25)"
    "dipole_product (g (vecs (sys sy))) (dipole_matel axis_x) (u (vecs (sys sy))) 3 0 = 16 / 25"
    using vs by (simp_all add: dipole_product_def sum_4 dipole_matel_def complex_eq_iff)
  have e00: "px sy ! 0 ! 4 = - (9 / 25)" "px sy ! 0 ! 0 = 0" "px sy ! 4 ! 4 = 0"
    using entries [rule_format, of 0 0] val(1) by simp_all
  have e01: "px sy ! 0 ! 5 = 12 / 25 * \<i>"
    using entries [rule_format, of 0 1] val(2) by simp
  have e03: "px sy ! 0 ! 7 = - (16 / 25)" "px sy ! 4 ! 3 = 16 / 25"
    using entries [rule_format, of 0 3] val(3,4) by simp_all
  have e30: "px sy ! 3 ! 4 = 16 / 25" "px sy ! 7 ! 0 = - (16 / 25)"
    using entries [rule_format, of 3 0] val(3,4) by simp_all
  have h: "px sy ! 5 ! 0 = cnj (px sy ! 0 ! 5)"
    using herm [rule_format, of 5 0] by simp
  then have e10: "px sy ! 5 ! 0 = - (12 / 25 * \<i>)"
    by (simp only: e01) simp
  from e00 e01 e03 e30 h e10
  have "px sy ! 0 ! 4 = - (9 / 25) \<and> px sy ! 0 ! 5 = 12 / 25 * \<i>
        \<and> px sy ! 0 ! 7 = - (16 / 25) \<and> px sy ! 3 ! 4 = 16 / 25
        \<and> px sy ! 5 ! 0 = - (12 / 25 * \<i>) \<and> px sy ! 7 ! 0 = - (16 / 25)
        \<and> px sy ! 4 ! 3 = 16 / 25
        \<and> px sy ! 0 ! 0 = 0 \<and> px sy ! 4 ! 4 = 0
        \<and> px sy ! 5 ! 0 = cnj (px sy ! 0 ! 5)"
    by blast
  with sy shape eigh_ref_contract show ?thesis by blast
qed

section \<open>The loops over the product basis\<close>

lemma foldM_e_append:
  "foldM_e f (xs @ ys) acc = bind_e (foldM_e f xs acc) (foldM_e f ys)"
  by (induction xs arbitrary: acc) (simp_all add: bind_e_def split: sum.splits)

lemma foldM_e_skip:
  "(\<And>x a. x \<in> set xs \<Longrightarrow> f a x = Inr a) \<Longrightarrow> foldM_e f xs acc = Inr acc"
  by (induction xs) simp_all

lemma foldM_e_upt_inv:
  assumes "I 0 acc0"
    and "\<And>k acc. k < n \<Longrightarrow> I k acc \<Longrightarrow> \<exists>acc'. f acc (h k) = Inr acc' \<and> I (Suc k) acc'"
  shows "\<exists>acc'. foldM_e f (map h [0..<n]) acc0 = Inr acc' \<and> I n acc'"
proof -
  have "m \<le> n \<Longrightarrow> \<exists>acc'. foldM_e f (map h [0..<m]) acc0 = Inr acc' \<and> I m acc'" for m
  proof (induction m)
    case 0
    with assms(1) show ?case by simp
  next
    case (Suc m)
    then obtain acc1 where 1: "foldM_e f (map h [0..<m]) acc0 = Inr acc1" "I m acc1" by auto
    from Suc.prems assms(2) [of m acc1] 1(2) obtain acc2 where
      "f acc1 (h m) = Inr acc2" "I (Suc m) acc2" by auto
    with 1 show ?case by (simp add: foldM_e_append)
  qed
  then show ?thesis by simp
qed

lemma enumerate_nth_map: "List.enumerate 0 xs = map (\<lambda>k. (k, xs ! k)) [0..<length xs]"
proof (rule nth_equalityI)
  show "length (List.enumerate 0 xs) = length (map (\<lambda>k. (k, xs ! k)) [0..<length xs])" by simp
next
  fix i assume "i < length (List.enumerate 0 xs)"
  then show "List.enumerate 0 xs ! i = map (\<lambda>k. (k, xs ! k)) [0..<length xs] ! i"
    by (simp add: nth_enumerate_eq)
qed

lemma index_of_first:
  "i < length xs \<Longrightarrow> xs ! i = x \<Longrightarrow> (\<And>j. j < i \<Longrightarrow> xs ! j \<noteq> x) \<Longrightarrow> index_of xs x = Inr i"
proof (induction xs arbitrary: i)
  case Nil
  then show ?case by simp
next
  case (Cons y ys)
  show ?case
  proof (cases i)
    case 0
    with Cons.prems show ?thesis by simp
  next
    case (Suc i')
    from Cons.prems(3) [of 0] Suc have "y \<noteq> x" by auto
    moreover have "index_of ys x = Inr i'"
    proof (rule Cons.IH)
      show "i' < length ys" using Cons.prems(1) Suc by simp
      show "ys ! i' = x" using Cons.prems(2) Suc by simp
      show "ys ! j \<noteq> x" if "j < i'" for j using Cons.prems(3) [of "Suc j"] that Suc by simp
    qed
    ultimately show ?thesis using Suc by simp
  qed
qed

lemma onehot_length [simp]: "length (onehot dm n) = dm"
  by (simp add: onehot_def)

lemma onehot_nth: "i < dm \<Longrightarrow> onehot dm n ! i = (if i \<noteq> n then 0 else 1)"
  by (simp add: onehot_def)

lemma onehot_inj: "n < dm \<Longrightarrow> onehot dm n = onehot dm n' \<Longrightarrow> n = n'"
proof -
  assume a: "n < dm" "onehot dm n = onehot dm n'"
  then have "onehot dm n ! n = onehot dm n' ! n" by simp
  with a(1) show ?thesis by (simp add: onehot_nth split: if_splits)
qed

lemma make_base_eq:
  "make_base dm = map (\<lambda>k. (onehot dm (k mod dm), k div dm)) [0..<2 * dm]"
proof -
  have 2: "[0..<2] = [0, 1]" by (simp add: upt_conv_Cons eval_nat_numeral)
  have "[0..<2 * dm] = [0..<dm] @ [dm..<dm + dm]"
    by (metis mult_2 upt_add_eq_append zero_le)
  moreover have "map (\<lambda>k. (onehot dm (k mod dm), k div dm)) [dm..<dm + dm]
      = map (\<lambda>n. (onehot dm n, 1)) [0..<dm]"
    by (auto simp: list_eq_iff_nth_eq)
  ultimately show ?thesis
    by (simp add: make_base_def 2)
qed

lemma make_base_length [simp]: "length (make_base dm) = 2 * dm"
  by (simp add: make_base_eq)

lemma make_base_nth: "k < 2 * dm \<Longrightarrow> make_base dm ! k = (onehot dm (k mod dm), k div dm)"
  by (simp add: make_base_eq)

lemma div_mod_unique:
  fixes dm :: nat
  assumes "l < dm"
  shows "r div dm = q \<and> r mod dm = l \<longleftrightarrow> r = q * dm + l"
  using assms by auto

lemma index_of_base:
  assumes "l < dm" "lab < 2"
  shows "index_of (make_base dm) (onehot dm l, lab) = Inr (lab * dm + l)"
proof (rule index_of_first)
  have "lab * dm + l < 2 * dm"
  proof -
    from assms(2) have "lab = 0 \<or> lab = 1" by auto
    with assms(1) show ?thesis by auto
  qed
  then show "lab * dm + l < length (make_base dm)" by simp
  then show "make_base dm ! (lab * dm + l) = (onehot dm l, lab)"
    using assms by (simp add: make_base_nth)
  fix j assume j: "j < lab * dm + l"
  show "make_base dm ! j \<noteq> (onehot dm l, lab)"
  proof
    assume e: "make_base dm ! j = (onehot dm l, lab)"
    have jl: "j < 2 * dm"
      using j \<open>lab * dm + l < length (make_base dm)\<close> by simp
    with e have "onehot dm (j mod dm) = onehot dm l" "j div dm = lab"
      by (simp_all add: make_base_nth)
    moreover have "j mod dm < dm" using assms(1) by simp
    ultimately have "j mod dm = l" "j div dm = lab" using onehot_inj by blast+
    then have "j = lab * dm + l" using div_mod_unique [OF assms(1)] by blast
    with j show False by simp
  qed
qed

lemma index_of_snv_base:
  assumes "n < dm"
  shows "index_of (map (\<lambda>n. onehot dm n) [0..<dm]) (onehot dm n) = Inr n"
proof (rule index_of_first)
  show "n < length (map (\<lambda>n. onehot dm n) [0..<dm])" using assms by simp
  show "map (\<lambda>n. onehot dm n) [0..<dm] ! n = onehot dm n" using assms by simp
  fix j assume "j < n"
  then show "map (\<lambda>n. onehot dm n) [0..<dm] ! j \<noteq> onehot dm n"
    using assms onehot_inj [of j dm n] by auto
qed


lemma tab_cong: "(\<And>r c. r < n \<Longrightarrow> c < n \<Longrightarrow> F r c = G r c) \<Longrightarrow> tab n F = tab n G"
  by (simp add: tab_def)

lemma tab_zeros: "np_zeros n n = tab n (\<lambda>r c. 0)"
  by (simp add: np_zeros_def tab_def map_replicate_const)

lemma tab_shape: "is_mat n n (tab n F)"
  by (simp add: tab_def is_mat_def shape_def comp_def map_replicate_const)

lemma tab_nth: "r < n \<Longrightarrow> c < n \<Longrightarrow> tab n F ! r ! c = F r c"
  by (simp add: tab_def)

lemma get2_tab: "r < n \<Longrightarrow> c < n \<Longrightarrow> get2 (tab n F) r c = Inr (F r c)"
  by (simp add: get2_def get1_def tab_def)

lemma set2_tab:
  assumes "i < n" "j < n"
  shows "set2 (tab n F) i j v = Inr (tab n (\<lambda>r c. if r = i \<and> c = j then v else F r c))"
proof -
  have "(tab n F)[i := (tab n F ! i)[j := v]] = tab n (\<lambda>r c. if r = i \<and> c = j then v else F r c)"
  proof (rule nth_equalityI)
    show "length ((tab n F)[i := (tab n F ! i)[j := v]])
        = length (tab n (\<lambda>r c. if r = i \<and> c = j then v else F r c))"
      by (simp add: tab_def)
  next
    fix r assume "r < length ((tab n F)[i := (tab n F ! i)[j := v]])"
    then have r: "r < n" by (simp add: tab_def)
    show "(tab n F)[i := (tab n F ! i)[j := v]] ! r
        = tab n (\<lambda>r c. if r = i \<and> c = j then v else F r c) ! r"
      using r assms by (auto simp: tab_def nth_list_update list_eq_iff_nth_eq)
  qed
  with assms show ?thesis by (simp add: set2_def tab_def)
qed

lemma get2_mat: "is_mat n m M \<Longrightarrow> r < n \<Longrightarrow> c < m \<Longrightarrow> get2 M r c = Inr (M ! r ! c)"
  by (simp add: get2_def get1_def is_mat_iff)


lemma vacancy_loop_eq:
  assumes H: "is_mat n n H" and dm: "dm \<le> n"
  shows "vacancy_loop dm H = Inr (energy_part dm H (2 * dm))"
proof -
  let ?snv = "map (\<lambda>n. onehot dm n) [0..<dm]"
  let ?body = "\<lambda>vh (k, b).
           let index = k in
           bind_e (index_of ?snv (fst b)) (\<lambda>internal_index.
           bind_e (get2 vh index k) (\<lambda>cur.
           bind_e (get2 H internal_index internal_index) (\<lambda>h.
           set2 vh index k (cur + h))))"
  have step: "\<exists>acc'. ?body acc (k, make_base dm ! k) = Inr acc' \<and> acc' = energy_part dm H (Suc k)"
    if k: "k < 2 * dm" and acc: "acc = energy_part dm H k" for k acc
  proof -
    from k have pos: "0 < dm" by (cases dm) auto
    then have m: "k mod dm < dm" by simp
    with dm have mn: "k mod dm < n" by simp
    have upd: "tab (2 * dm) (\<lambda>r c. if r = k \<and> c = k then 0 + H ! (k mod dm) ! (k mod dm)
                 else if r = c \<and> c < k then H ! (c mod dm) ! (c mod dm) else 0)
       = energy_part dm H (Suc k)"
      unfolding energy_part_def by (rule tab_cong) (auto simp: less_Suc_eq)
    show ?thesis
      using k m mn upd
      by (simp add: acc make_base_nth index_of_snv_base Let_def energy_part_def get2_tab
          get2_mat [OF H] set2_tab)
  qed
  have "\<exists>acc'. foldM_e ?body (map (\<lambda>k. (k, make_base dm ! k)) [0..<2 * dm]) (energy_part dm H 0)
      = Inr acc' \<and> acc' = energy_part dm H (2 * dm)"
    by (rule foldM_e_upt_inv [where I = "\<lambda>K acc. acc = energy_part dm H K"]) (simp, rule step)
  moreover have "np_zeros (2 * dm) (2 * dm) = energy_part dm H 0"
    by (simp add: tab_zeros energy_part_def)
  ultimately show ?thesis
    by (simp add: vacancy_loop_def Let_def enumerate_nth_map)
qed

lemma foldM_e_single:
  assumes "j < n" and "\<And>a m. m < n \<Longrightarrow> m \<noteq> j \<Longrightarrow> f a m = Inr a"
  shows "foldM_e f [0..<n] acc = f acc j"
proof -
  have "[0..<n] = [0..<j] @ [j..<n]"
    using assms(1) upt_add_eq_append [of 0 j "n - j"] by simp
  moreover have "[j..<n] = j # [Suc j..<n]"
    using assms(1) by (rule upt_conv_Cons)
  ultimately have split: "[0..<n] = [0..<j] @ [j] @ [Suc j..<n]" by simp
  have before: "foldM_e f [0..<j] a = Inr a" for a
    using assms by (intro foldM_e_skip) auto
  have after: "foldM_e f [Suc j..<n] a = Inr a" for a
    using assms by (intro foldM_e_skip) auto
  have "foldM_e f ([0..<j] @ [j] @ [Suc j..<n]) acc = f acc j"
    by (cases "f acc j") (simp_all add: foldM_e_append before after)
  with split show ?thesis by (simp only:)
qed

lemma coupling_part_next: "0 < dm \<Longrightarrow> coupling_part dm D k dm = coupling_part dm D (Suc k) 0"
  unfolding coupling_part_def by (rule tab_cong) (auto simp: less_Suc_eq)


lemma dip_ham_inner:
  assumes D: "is_mat dm dm D" and k: "k < 2 * dm" and l: "l < dm"
  shows "foldM_e (\<lambda>dh2 m.
                 bind_e (get1 (fst (make_base dm ! k)) m) (\<lambda>occ.
                 if occ = 1 then
                   let out_state = (map (\<lambda>n. if n \<noteq> l then 0 else 1) [0..<dm],
                                    snd (make_base dm ! k)) in
                   bind_e (index_of (make_base dm) out_state) (\<lambda>index.
                   let internal_index = l in
                   bind_e (get2 dh2 index k) (\<lambda>cur.
                   bind_e (get2 D internal_index m) (\<lambda>d.
                   set2 dh2 index k (cur + d))))
                 else Inr dh2))
               [0..<dm] (coupling_part dm D k l)
         = Inr (coupling_part dm D k (Suc l))"
    (is "foldM_e ?f _ _ = _")
proof -
  define f where "f = ?f"
  let ?j = "k mod dm"
  let ?q = "k div dm"
  from l have j: "?j < dm" by simp
  from k l have q: "?q < 2" by (simp add: less_mult_imp_div_less mult.commute)
  from q l have idx: "?q * dm + l < 2 * dm"
  proof -
    from q have "?q = 0 \<or> ?q = 1" by auto
    with l show ?thesis by auto
  qed
  have skip: "f a m = Inr a" if "m < dm" "m \<noteq> ?j" for a m
    using that k by (simp add: f_def make_base_nth get1_def onehot_nth)
  have out: "map (\<lambda>n. if n \<noteq> l then 0 else 1) [0..<dm] = onehot dm l"
    by (simp add: onehot_def)
  have upd: "tab (2 * dm) (\<lambda>r c. if r = ?q * dm + l \<and> c = k then D ! l ! ?j
                 else if r div dm = c div dm \<and> (c < k \<or> (c = k \<and> r mod dm < l))
                      then D ! (r mod dm) ! (c mod dm) else 0)
       = coupling_part dm D k (Suc l)"
    unfolding coupling_part_def
  proof (rule tab_cong)
    fix r c assume "r < 2 * dm" "c < 2 * dm"
    have "r = ?q * dm + l \<longleftrightarrow> r div dm = ?q \<and> r mod dm = l"
      using div_mod_unique [OF l, of r ?q] by blast
    then show "(if r = ?q * dm + l \<and> c = k then D ! l ! ?j
                 else if r div dm = c div dm \<and> (c < k \<or> (c = k \<and> r mod dm < l))
                      then D ! (r mod dm) ! (c mod dm) else 0)
         = (if r div dm = c div dm \<and> (c < k \<or> (c = k \<and> r mod dm < Suc l))
            then D ! (r mod dm) ! (c mod dm) else 0)"
      by (auto simp: less_Suc_eq)
  qed
  have cur: "get2 (coupling_part dm D k l) (?q * dm + l) k = Inr 0"
    using idx k l by (simp add: coupling_part_def get2_tab)
  have at: "f (coupling_part dm D k l) ?j = Inr (coupling_part dm D k (Suc l))"
    using k j l q idx upd cur
    by (simp add: f_def make_base_nth get1_def onehot_nth out index_of_base Let_def
        get2_mat [OF D])
       (simp add: coupling_part_def set2_tab)
  have "foldM_e f [0..<dm] (coupling_part dm D k l) = f (coupling_part dm D k l) ?j"
    using j skip by (rule foldM_e_single)
  with at have "foldM_e f [0..<dm] (coupling_part dm D k l) = Inr (coupling_part dm D k (Suc l))"
    by (simp only:)
  then show ?thesis unfolding f_def .
qed


lemma dip_ham_column:
  assumes D: "is_mat dm dm D" and k: "k < 2 * dm"
  shows "foldM_e (\<lambda>dh1 l.
               foldM_e (\<lambda>dh2 m.
                 bind_e (get1 (fst (make_base dm ! k)) m) (\<lambda>occ.
                 if occ = 1 then
                   let out_state = (map (\<lambda>n. if n \<noteq> l then 0 else 1) [0..<dm],
                                    snd (make_base dm ! k)) in
                   bind_e (index_of (make_base dm) out_state) (\<lambda>index.
                   let internal_index = l in
                   bind_e (get2 dh2 index k) (\<lambda>cur.
                   bind_e (get2 D internal_index m) (\<lambda>d.
                   set2 dh2 index k (cur + d))))
                 else Inr dh2))
               [0..<dm] dh1)
             [0..<dm] (coupling_part dm D k 0)
         = Inr (coupling_part dm D (Suc k) 0)"
    (is "foldM_e ?f _ _ = _")
proof -
  define f where "f = ?f"
  from k have pos: "0 < dm" by (cases dm) auto
  have step: "\<exists>acc'. f acc l = Inr acc' \<and> acc' = coupling_part dm D k (Suc l)"
    if "l < dm" "acc = coupling_part dm D k l" for l acc
    using dip_ham_inner [OF D k that(1)] that(2) unfolding f_def by simp
  have "\<exists>acc'. foldM_e f (map (\<lambda>l. l) [0..<dm]) (coupling_part dm D k 0) = Inr acc'
      \<and> acc' = coupling_part dm D k dm"
    by (rule foldM_e_upt_inv [where I = "\<lambda>L acc. acc = coupling_part dm D k L"]) (simp, rule step)
  then have "foldM_e f [0..<dm] (coupling_part dm D k 0) = Inr (coupling_part dm D (Suc k) 0)"
    using coupling_part_next [OF pos] by simp
  then show ?thesis unfolding f_def .
qed

lemma dip_ham_loop_eq:
  assumes D: "is_mat dm dm D"
  shows "dip_ham_loop D = Inr (coupling_part dm D (2 * dm) 0)"
proof -
  from D have len: "length D = dm" by (simp add: is_mat_def shape_def)
  define f where "f = (\<lambda>dh (kb :: nat \<times> nat list \<times> nat).
           case kb of (k, b) \<Rightarrow>
           let state = b; fac = (1::int) in
           if fac > 0 then
             foldM_e (\<lambda>dh1 l.
               foldM_e (\<lambda>dh2 m.
                 bind_e (get1 (fst state) m) (\<lambda>occ.
                 if occ = 1 then
                   let out_state = (map (\<lambda>n. if n \<noteq> l then 0 else 1) [0..<dm], snd state) in
                   bind_e (index_of (make_base dm) out_state) (\<lambda>index.
                   let internal_index = l in
                   bind_e (get2 dh2 index k) (\<lambda>cur.
                   bind_e (get2 D internal_index m) (\<lambda>d.
                   set2 dh2 index k (cur + d))))
                 else Inr dh2))
               [0..<dm] dh1)
             [0..<dm] dh
           else Inr dh)"
  have step: "\<exists>acc'. f acc (k, make_base dm ! k) = Inr acc' \<and> acc' = coupling_part dm D (Suc k) 0"
    if "k < 2 * dm" "acc = coupling_part dm D k 0" for k acc
    using dip_ham_column [OF D that(1)] that(2) unfolding f_def by (simp add: Let_def)
  have "\<exists>acc'. foldM_e f (map (\<lambda>k. (k, make_base dm ! k)) [0..<2 * dm]) (coupling_part dm D 0 0)
      = Inr acc' \<and> acc' = coupling_part dm D (2 * dm) 0"
    by (rule foldM_e_upt_inv [where I = "\<lambda>K acc. acc = coupling_part dm D K 0"]) (simp, rule step)
  moreover have "np_zeros (2 * dm) (2 * dm) = coupling_part dm D 0 0"
    by (simp add: tab_zeros coupling_part_def)
  moreover have "dip_ham_loop D
      = foldM_e f (List.enumerate 0 (make_base dm)) (np_zeros (2 * dm) (2 * dm))"
    unfolding dip_ham_loop_def f_def by (simp add: Let_def len)
  ultimately show ?thesis
    by (simp add: enumerate_nth_map)
qed


lemma bind_e_assoc: "bind_e (bind_e m f) h = bind_e m (\<lambda>x. bind_e (f x) h)"
  by (cases m) simp_all

lemma sector_index:
  fixes dm :: nat
  assumes "label < 2" "lv < dm"
  shows "label * dm + lv < 2 * dm" "(label * dm + lv) div dm = label" "(label * dm + lv) mod dm = lv"
proof -
  from assms(1) have "label = 0 \<or> label = 1" by auto
  with assms(2) show "label * dm + lv < 2 * dm" by auto
  show "(label * dm + lv) div dm = label" "(label * dm + lv) mod dm = lv"
    using assms(2) by simp_all
qed

text \<open>
  Claim C2. For every \<open>dm\<close> by \<open>dm\<close> complex matrix \<open>D\<close>, the loop of \<open>dipole_ham\<close>
  and \<open>dipole_ham_bfield\<close> returns the \<open>2 dm\<close> by \<open>2 dm\<close> matrix whose entry at
  \<open>(label dm + to_level, label dm + from_level)\<close> is \<open>D[to_level, from_level]\<close> for both
  labels and all levels below \<open>dm\<close>, and whose entries at \<open>(r, c)\<close> with
  \<open>r // dm \<noteq> c // dm\<close> are zero. That matrix is what \<open>dipole_ham\<close> and
  \<open>dipole_ham_bfield\<close> return when \<open>D\<close> is their weighted dipole matrix \<open>dip_mat\<close>.
\<close>

theorem coupling_operator_entries:
  assumes "is_mat dm dm D"
  shows "\<exists>E. dip_ham_loop D = Inr E \<and> is_mat (2 * dm) (2 * dm) E
      \<and> (\<forall>label<2. \<forall>to_level<dm. \<forall>from_level<dm.
            E ! (label * dm + to_level) ! (label * dm + from_level) = D ! to_level ! from_level)
      \<and> (\<forall>r<2 * dm. \<forall>c<2 * dm. r div dm \<noteq> c div dm \<longrightarrow> E ! r ! c = 0)
      \<and> (dipole_mat cs eigh polarization epsilon b_vec = Inr D
            \<longrightarrow> dipole_ham cs eigh polarization epsilon b_vec = Inr E)
      \<and> (dipole_mat_bfield cs eigh polarization phi bm = Inr D
            \<longrightarrow> dipole_ham_bfield cs eigh polarization phi bm = Inr E)"
proof -
  let ?E = "coupling_part dm D (2 * dm) 0"
  have loop: "dip_ham_loop D = Inr ?E" by (rule dip_ham_loop_eq [OF assms])
  have shape: "is_mat (2 * dm) (2 * dm) ?E" by (simp add: coupling_part_def tab_shape)
  have same: "?E ! (label * dm + to_level) ! (label * dm + from_level) = D ! to_level ! from_level"
    if "label < 2" "to_level < dm" "from_level < dm" for label to_level from_level
    using sector_index [OF that(1,2)] sector_index [OF that(1,3)]
    by (simp add: coupling_part_def tab_nth)
  have cross: "?E ! r ! c = 0" if "r < 2 * dm" "c < 2 * dm" "r div dm \<noteq> c div dm" for r c
    using that by (simp add: coupling_part_def tab_nth)
  have ham: "dipole_ham cs eigh polarization epsilon b_vec
      = bind_e (dipole_mat cs eigh polarization epsilon b_vec) dip_ham_loop"
    by (simp add: dipole_ham_def dipole_mat_def bind_e_assoc)
  have hamb: "dipole_ham_bfield cs eigh polarization phi bm
      = bind_e (dipole_mat_bfield cs eigh polarization phi bm) dip_ham_loop"
    by (simp add: dipole_ham_bfield_def dipole_mat_bfield_def bind_e_assoc Let_def)
  from loop shape same cross show ?thesis
    by (intro exI [of _ ?E]) (simp add: ham hamb)
qed

theorem coupling_operator_entries_witness:
  "is_mat 2 2 [[1, 2], [3, 4 :: complex]]
   \<and> (\<exists>E. dip_ham_loop [[1, 2], [3, 4]] = Inr E \<and> is_mat 4 4 E
        \<and> E ! 0 ! 0 = 1 \<and> E ! 0 ! 1 = 2 \<and> E ! 1 ! 0 = 3 \<and> E ! 1 ! 1 = 4
        \<and> E ! 2 ! 2 = 1 \<and> E ! 2 ! 3 = 2 \<and> E ! 3 ! 2 = 3 \<and> E ! 3 ! 3 = 4
        \<and> E ! 0 ! 2 = 0 \<and> E ! 3 ! 1 = 0)"
proof -
  let ?D = "[[1, 2], [3, 4 :: complex]]"
  have D: "is_mat 2 2 ?D" by (simp add: mat_eval)
  from coupling_operator_entries [OF D] obtain E where
    E: "dip_ham_loop ?D = Inr E" "is_mat (2 * 2) (2 * 2) E"
    and same: "\<forall>label<2. \<forall>to_level<2. \<forall>from_level<2.
            E ! (label * 2 + to_level) ! (label * 2 + from_level) = ?D ! to_level ! from_level"
    and cross: "\<forall>r<2 * 2. \<forall>c<2 * 2. r div 2 \<noteq> c div 2 \<longrightarrow> E ! r ! c = 0"
    by blast
  from same [rule_format, of 0 0 0] same [rule_format, of 0 0 1] same [rule_format, of 0 1 0]
    same [rule_format, of 0 1 1] same [rule_format, of 1 0 0] same [rule_format, of 1 0 1]
    same [rule_format, of 1 1 0] same [rule_format, of 1 1 1]
  have "E ! 0 ! 0 = 1 \<and> E ! 0 ! 1 = 2 \<and> E ! 1 ! 0 = 3 \<and> E ! 1 ! 1 = 4
        \<and> E ! 2 ! 2 = 1 \<and> E ! 2 ! 3 = 2 \<and> E ! 3 ! 2 = 3 \<and> E ! 3 ! 3 = 4"
    by (simp add: eval_nat_numeral)
  moreover from cross [rule_format, of 0 2] cross [rule_format, of 3 1]
  have "E ! 0 ! 2 = 0 \<and> E ! 3 ! 1 = 0" by simp
  ultimately show ?thesis using D E by simp
qed

section \<open>The enlarged energy operator\<close>

lemma fill_diag_zeros:
  assumes "length ks \<le> n"
  shows "fill_diag (np_zeros n n) ks
       = Inr (tab n (\<lambda>r c. if r = c \<and> c < length ks then ks ! c else 0))"
proof -
  let ?I = "\<lambda>K acc. acc = tab n (\<lambda>r c. if r = c \<and> c < K then ks ! c else (0::real))"
  have step: "\<exists>acc'. (\<lambda>H' (i, k). set2 H' i i k) acc (k, ks ! k) = Inr acc' \<and> ?I (Suc k) acc'"
    if "k < length ks" "?I k acc" for k acc
  proof -
    from that(1) assms have kn: "k < n" by simp
    have "tab n (\<lambda>r c. if r = k \<and> c = k then ks ! k
                          else if r = c \<and> c < k then ks ! c else 0)
        = tab n (\<lambda>r c. if r = c \<and> c < Suc k then ks ! c else 0)"
      by (rule tab_cong) (auto simp: less_Suc_eq)
    with kn that(2) show ?thesis by (simp add: set2_tab)
  qed
  have "\<exists>acc'. foldM_e (\<lambda>H' (i, k). set2 H' i i k) (map (\<lambda>k. (k, ks ! k)) [0..<length ks])
          (tab n (\<lambda>r c. 0)) = Inr acc' \<and> ?I (length ks) acc'"
    by (rule foldM_e_upt_inv [where I = ?I]) (simp, rule step)
  then show ?thesis
    by (simp add: fill_diag_def enumerate_nth_map tab_zeros)
qed

lemma system_px_shape:
  assumes "eigh_contract eigh" "system c eigh b strain b_vec = Inr sy"
  shows "is_mat 8 8 (px sy)"
proof -
  from system_shapes [OF assms] have d: "is_mat 4 4 (dips (sys sy) axis_x)" by simp
  from system_parts [OF assms(2)]
  have "composite 4 (dips (sys sy) axis_x) = Inr (by_axis (px sy) (py sy) (pz sy) axis_x)" by blast
  with composite_4 [OF d] show ?thesis by (auto simp: by_axis_def)
qed

text \<open>
  Claim C3. Whenever \<open>system\<close> returns for the field given to \<open>vacancy\<close>, with an
  \<open>eigh\<close> that keeps to its contract, \<open>vacancy\<close> returns a 16 by 16 real matrix (\<open>dim\<close>
  is 8): its diagonal entry at \<open>label * 8 + level\<close> is the eigenenergy of the level in
  the list \<open>energy\<close> returns, the four ground eigenenergies followed by the four excited
  ones, each of the two lists ascending; every entry off the diagonal is zero. So each
  energy stands once in each label sector.
\<close>

theorem vacancy_energy_operator:
  assumes "eigh_contract eigh" and "system c eigh epsilon False b_vec = Inr sy"
  shows "\<exists>V. vacancy c eigh epsilon b_vec = Inr V \<and> is_mat 16 16 V
      \<and> (\<forall>label<2. \<forall>level<8.
            V ! (label * 8 + level) ! (label * 8 + level)
              = (g (eigs (sys sy)) @ u (eigs (sys sy))) ! level)
      \<and> (\<forall>r<16. \<forall>c<16. r \<noteq> c \<longrightarrow> V ! r ! c = 0)
      \<and> energy c eigh epsilon b_vec = Inr (g (eigs (sys sy)) @ u (eigs (sys sy)))
      \<and> length (g (eigs (sys sy))) = 4 \<and> length (u (eigs (sys sy))) = 4
      \<and> sorted (g (eigs (sys sy))) \<and> sorted (u (eigs (sys sy)))"
proof -
  let ?es = "g (eigs (sys sy)) @ u (eigs (sys sy))"
  let ?H = "tab 8 (\<lambda>r c. if r = c \<and> c < length ?es then ?es ! c else 0)"
  let ?V = "energy_part 8 ?H (2 * 8)"
  from system_shapes [OF assms] have len: "length (g (eigs (sys sy))) = 4"
    "length (u (eigs (sys sy))) = 4" and srt: "sorted (g (eigs (sys sy)))"
    "sorted (u (eigs (sys sy)))" by simp_all
  then have les: "length ?es = 8" by simp
  from system_px_shape [OF assms] have dm: "length (px sy) = 8" by (simp add: is_mat_def shape_def)
  have H: "fill_diag (np_zeros 8 8) ?es = Inr ?H"
    using fill_diag_zeros [of ?es 8] les by simp
  have loop: "vacancy_loop 8 ?H = Inr ?V"
    by (rule vacancy_loop_eq [OF tab_shape]) simp
  have vac: "vacancy c eigh epsilon b_vec = Inr ?V"
    using assms(2) dm H loop by (simp add: vacancy_def Let_def)
  have shape: "is_mat 16 16 ?V"
    using tab_shape [of "2 * 8"] by (simp add: energy_part_def)
  have diag: "?V ! (label * 8 + level) ! (label * 8 + level) = ?es ! level"
    if "label < 2" "level < 8" for label level
    using sector_index [OF that] that(2) les by (simp add: energy_part_def tab_nth)
  have off: "?V ! r ! c = 0" if "r < 16" "c < 16" "r \<noteq> c" for r c
    using that by (simp add: energy_part_def tab_nth)
  have en: "energy c eigh epsilon b_vec = Inr ?es"
    using assms(2) by (simp add: energy_def)
  from vac shape diag off en len srt show ?thesis
    by (intro exI [of _ ?V]) simp
qed

theorem vacancy_energy_operator_witness:
  "eigh_contract eigh_ref
   \<and> (\<exists>sy V. system codata eigh_ref (1 / 10 ^ 6) False [0, 0, 1] = Inr sy
        \<and> vacancy codata eigh_ref (1 / 10 ^ 6) [0, 0, 1] = Inr V \<and> is_mat 16 16 V
        \<and> energy codata eigh_ref (1 / 10 ^ 6) [0, 0, 1] = Inr [1, 2, 3, 4, 11, 12, 13, 14]
        \<and> V ! 0 ! 0 = 1 \<and> V ! 1 ! 1 = 2 \<and> V ! 2 ! 2 = 3 \<and> V ! 3 ! 3 = 4
        \<and> V ! 4 ! 4 = 11 \<and> V ! 5 ! 5 = 12 \<and> V ! 6 ! 6 = 13 \<and> V ! 7 ! 7 = 14
        \<and> V ! 8 ! 8 = 1 \<and> V ! 9 ! 9 = 2 \<and> V ! 10 ! 10 = 3 \<and> V ! 11 ! 11 = 4
        \<and> V ! 12 ! 12 = 11 \<and> V ! 13 ! 13 = 12 \<and> V ! 14 ! 14 = 13 \<and> V ! 15 ! 15 = 14
        \<and> V ! 3 ! 11 = 0 \<and> V ! 11 ! 3 = 0 \<and> V ! 0 ! 1 = 0)"
proof -
  from system_returns [OF eigh_ref_contract eigh_ref_total make_B_eps, of codata False]
  obtain sy where sy: "system codata eigh_ref (1 / 10 ^ 6) False [0, 0, 1] = Inr sy" by blast
  from system_ref [OF make_B_eps _ _ sy]
  have es: "g (eigs (sys sy)) @ u (eigs (sys sy)) = [1, 2, 3, 4, 11, 12, 13, 14]" by simp
  from vacancy_energy_operator [OF eigh_ref_contract sy] obtain V where
    V: "vacancy codata eigh_ref (1 / 10 ^ 6) [0, 0, 1] = Inr V" "is_mat 16 16 V"
    and diag: "\<forall>label<2. \<forall>level<8. V ! (label * 8 + level) ! (label * 8 + level)
              = (g (eigs (sys sy)) @ u (eigs (sys sy))) ! level"
    and off: "\<forall>r<16. \<forall>c<16. r \<noteq> c \<longrightarrow> V ! r ! c = 0"
    and en: "energy codata eigh_ref (1 / 10 ^ 6) [0, 0, 1]
              = Inr (g (eigs (sys sy)) @ u (eigs (sys sy)))"
    by blast
  have d0: "V ! 0 ! 0 = 1 \<and> V ! 1 ! 1 = 2 \<and> V ! 2 ! 2 = 3 \<and> V ! 3 ! 3 = 4
        \<and> V ! 4 ! 4 = 11 \<and> V ! 5 ! 5 = 12 \<and> V ! 6 ! 6 = 13 \<and> V ! 7 ! 7 = 14"
    using diag [rule_format, of 0 0] diag [rule_format, of 0 1] diag [rule_format, of 0 2]
      diag [rule_format, of 0 3] diag [rule_format, of 0 4] diag [rule_format, of 0 5]
      diag [rule_format, of 0 6] diag [rule_format, of 0 7]
    by (simp add: es numeral_2_eq_2)
  have d1: "V ! 8 ! 8 = 1 \<and> V ! 9 ! 9 = 2 \<and> V ! 10 ! 10 = 3 \<and> V ! 11 ! 11 = 4
        \<and> V ! 12 ! 12 = 11 \<and> V ! 13 ! 13 = 12 \<and> V ! 14 ! 14 = 13 \<and> V ! 15 ! 15 = 14"
    using diag [rule_format, of 1 0] diag [rule_format, of 1 1] diag [rule_format, of 1 2]
      diag [rule_format, of 1 3] diag [rule_format, of 1 4] diag [rule_format, of 1 5]
      diag [rule_format, of 1 6] diag [rule_format, of 1 7]
    by (simp add: es)
  have o: "V ! 3 ! 11 = 0 \<and> V ! 11 ! 3 = 0 \<and> V ! 0 ! 1 = 0"
    using off [rule_format, of 3 11] off [rule_format, of 11 3] off [rule_format, of 0 1] by simp
  from sy V en es d0 d1 o eigh_ref_contract show ?thesis by auto
qed

section \<open>The reduced variants\<close>

lemma get_eigs_perm:
  "get_eigs eigh_perm (np_diag [2, 0, 1, 3])
   = Inr ([0, 1, 2, 3], [[0, 0, 1, 0], [1, 0, 0, 0], [0, 1, 0, 0], [0, 0, 0, 1]])"
  by (simp add: get_eigs_def eigh_perm_def argsort_def take_idx_def upt_conv_Cons
      eval_nat_numeral Let_def)

lemma transform_perm:
  "\<exists>d. transform [[0, 0, 1, 0], [1, 0, 0, 0], [0, 1, 0, 0], [0, 0, 0, 1]]
          [[0, 0, 1, 0], [1, 0, 0, 0], [0, 1, 0, 0], [0, 0, 0, 1]] (dipole_matel a) = Inr d"
proof -
  have "is_mat 4 4 [[0, 0, 1, 0], [1, 0, 0, 0], [0, 1, 0, 0], [0, 0, 0, 1 :: complex]]"
    by (simp add: mat_eval)
  from transform_4 [OF this this dipole_matel_shape] show ?thesis by blast
qed

text \<open>
  Claim C4. \<open>manifold_small\<close> slices the eigenvector matrix by \<open>[::2]\<close>, which takes its
  rows 0 and 2, where the eigenvectors are its columns. For the diagonal matrix with
  entries 2, 0, 1, 3, whose eigenvectors in ascending order of the eigenvalues are the
  unit vectors \<open>e1, e2, e0, e3\<close>, the reduced \<open>vecs\<close> are \<open>e2\<close> and \<open>e1\<close>, and the
  eigenvectors of the eigenpairs 0 and 2 of the full decomposition are \<open>e1\<close> and \<open>e0\<close>.
\<close>

theorem manifold_small_vecs_rows:
  "map_sum id (\<lambda>r. g (vecs r))
     (manifold_small eigh_perm \<lparr>g = np_diag [2, 0, 1, 3], u = np_diag [2, 0, 1, 3]\<rparr> dipole_matel)
   = Inr [[0, 0, 1, 0], [0, 1, 0, 0]]
   \<and> map_sum id (\<lambda>r. np_transpose (map even_idx (g (vecs r))))
     (manifold eigh_perm \<lparr>g = np_diag [2, 0, 1, 3], u = np_diag [2, 0, 1, 3]\<rparr> dipole_matel)
   = Inr [[0, 1, 0, 0], [1, 0, 0, 0]]"
proof -
  from transform_perm [of axis_x] transform_perm [of axis_y] transform_perm [of axis_z]
  obtain dx dy dz where
    "transform [[0, 0, 1, 0], [1, 0, 0, 0], [0, 1, 0, 0], [0, 0, 0, 1]]
          [[0, 0, 1, 0], [1, 0, 0, 0], [0, 1, 0, 0], [0, 0, 0, 1]] (dipole_matel axis_x) = Inr dx"
    "transform [[0, 0, 1, 0], [1, 0, 0, 0], [0, 1, 0, 0], [0, 0, 0, 1]]
          [[0, 0, 1, 0], [1, 0, 0, 0], [0, 1, 0, 0], [0, 0, 0, 1]] (dipole_matel axis_y) = Inr dy"
    "transform [[0, 0, 1, 0], [1, 0, 0, 0], [0, 1, 0, 0], [0, 0, 0, 1]]
          [[0, 0, 1, 0], [1, 0, 0, 0], [0, 1, 0, 0], [0, 0, 0, 1]] (dipole_matel axis_z) = Inr dz"
    by blast
  then show ?thesis
    by (simp add: manifold_small_def manifold_def get_eigs_perm Let_def np_transpose_def
        upt_conv_Cons)
qed

text \<open>
  The eigenvalues and the dipole matrices of \<open>manifold_small\<close> are the even-indexed
  entries, rows and columns of those of \<open>manifold\<close>; its \<open>vecs\<close> are the even-indexed
  rows of the eigenvector matrices.
\<close>

lemma by_axis_map: "by_axis (f dx) (f dy) (f dz) = (\<lambda>a. f (by_axis dx dy dz a))"
  by (rule ext) (simp add: by_axis_def split: axis.splits)

lemma manifold_small_projection:
  "manifold_small eigh HT D
   = map_sum id (\<lambda>r. \<lparr>eigs = \<lparr>g = even_idx (g (eigs r)), u = even_idx (u (eigs r))\<rparr>,
                        vecs = \<lparr>g = even_idx (g (vecs r)), u = even_idx (u (vecs r))\<rparr>,
                        dips = (\<lambda>a. map even_idx (even_idx (dips r a)))\<rparr>)
       (manifold eigh HT D)"
  unfolding manifold_small_def manifold_def Let_def
  by (auto simp: bind_e_def by_axis_map split: sum.splits prod.splits)

section \<open>The frames of the two entry points\<close>

text \<open>
  Claim C5, amended. \<open>snv_hamiltonian\<close> reads its direction in lattice coordinates: it
  converts it with \<open>lattice_to_coord\<close> before \<open>make_B_vector\<close>, which \<open>system\<close> does
  not. For every magnitude, flag and direction \<open>[x, y, z]\<close>, \<open>snv_hamiltonian\<close> fails
  or returns as the construction of the two manifold matrices for the field of the
  converted direction does, and its blocks at \<open>[4:8, 4:8]\<close> and \<open>[0:4, 0:4]\<close> are that
  ground and that excited matrix. Whenever \<open>system\<close> returns for the converted
  direction, \<open>snv_hamiltonian\<close> returns for the direction itself, and what \<open>system\<close>
  returns under \<open>sys\<close> is the diagonalisation (\<open>manifold\<close>) of these two blocks.
\<close>

theorem snv_hamiltonian_blocks:
  "map_sum id (\<lambda>H. \<lparr>g = get_block H 4 4 4 4, u = get_block H 0 0 4 4\<rparr>)
     (snv_hamiltonian c b strain [x, y, z])
   = manifold_blocks c (make_B_vector b (matvec lattice_basis [x, y, z]))
   \<and> (system c eigh b strain (matvec lattice_basis [x, y, z]) = Inr sy
        \<longrightarrow> (\<exists>H. snv_hamiltonian c b strain [x, y, z] = Inr H
               \<and> manifold eigh \<lparr>g = get_block H 4 4 4 4, u = get_block H 0 0 4 4\<rparr> dipole_matel
                   = Inr (sys sy)))"
proof (intro conjI impI)
  show blocks: "map_sum id (\<lambda>H. \<lparr>g = get_block H 4 4 4 4, u = get_block H 0 0 4 4\<rparr>)
     (snv_hamiltonian c b strain [x, y, z])
   = manifold_blocks c (make_B_vector b (matvec lattice_basis [x, y, z]))"
    by (rule snv_blocks)
  assume "system c eigh b strain (matvec lattice_basis [x, y, z]) = Inr sy"
  from system_parts [OF this] obtain HT where
    HT: "manifold_blocks c (make_B_vector b (matvec lattice_basis [x, y, z])) = Inr HT"
    and mr: "manifold eigh HT dipole_matel = Inr (sys sy)" by blast
  from blocks HT obtain H where "snv_hamiltonian c b strain [x, y, z] = Inr H"
    "\<lparr>g = get_block H 4 4 4 4, u = get_block H 0 0 4 4\<rparr> = HT"
    by (cases "snv_hamiltonian c b strain [x, y, z]") auto
  with mr show "\<exists>H. snv_hamiltonian c b strain [x, y, z] = Inr H
               \<and> manifold eigh \<lparr>g = get_block H 4 4 4 4, u = get_block H 0 0 4 4\<rparr> dipole_matel
                   = Inr (sys sy)"
    by auto
qed

theorem snv_hamiltonian_blocks_witness:
  "\<exists>sy H. system codata eigh_ref 1 False (matvec lattice_basis [0, 0, 1]) = Inr sy
      \<and> snv_hamiltonian codata 1 False [0, 0, 1] = Inr H
      \<and> manifold eigh_ref \<lparr>g = get_block H 4 4 4 4, u = get_block H 0 0 4 4\<rparr> dipole_matel
          = Inr (sys sy)"
proof -
  from system_returns [OF eigh_ref_contract eigh_ref_total make_B_unit, of codata False]
  obtain sy where sy: "system codata eigh_ref 1 False (matvec lattice_basis [0, 0, 1]) = Inr sy"
    by blast
  from snv_hamiltonian_blocks [of codata 1 False 0 0 1 eigh_ref sy] sy
  show ?thesis by blast
qed

end
